theory Spec2Isabelle
  imports Main "HOL-Library.AList" "HOL-Library.Sublist"
begin

section \<open>Data model\<close>

text \<open>
  The messaging core of the backend: the Mongoose models \<open>Conversation\<close> and \<open>Message\<close>
  and the routes of the message router. Identifiers are MongoDB ObjectIds, opaque values
  with equality; \<open>toString()\<close> gives the canonical text of one. Dates are milliseconds. A
  JavaScript \<open>Number\<close> holding a counter is an \<open>int\<close>. A JavaScript string is the list of
  its UTF-16 code units, numbers from 0 to 65535: \<open>length\<close> is its \<open>.length\<close> and \<open>take n\<close>
  its \<open>substring(0, n)\<close>; \<open>js\<close> gives the string of an ASCII literal. The names of the
  fields of a request stay literals. The \<open>updatedAt\<close> stamps, which nothing below reads,
  are left out of the documents.
\<close>

type_synonym oid = nat
type_synonym date = nat
type_synonym jstring = "int list"

definition js :: "string \<Rightarrow> jstring" where
  "js s = map of_char s"

record participant =
  userId :: oid
  userName :: jstring

record last_message =
  lm_content :: jstring
  lm_senderId :: "oid option"
  lm_timestamp :: date

text \<open>
  What \<open>populate('participants.userId', 'firstName lastName avatar')\<close> puts in place of the
  identifier of a participant: the User document with the selected fields.
\<close>

record profile =
  pf_id :: oid
  pf_firstName :: jstring
  pf_lastName :: jstring
  pf_avatar :: "jstring option"

text \<open>
  \<open>unreadCount\<close> is a Mongoose \<open>Map\<close> of \<open>Number\<close>: keys in insertion order, one value a key.
  A key is a string. The methods of the model make it with \<open>toString()\<close> from the \<open>userId\<close> of
  a participant or from an identifier: the canonical text of an ObjectId, or, when the
  \<open>userId\<close> is populated, the text that \<open>inspect\<close> prints for the User document, which is no
  identifier.
\<close>

datatype key = IdText oid | InspectText profile

text \<open>
  \<open>Map.set\<close> of Mongoose throws on a key that contains a dot. The 24 hexadecimal digits of
  an identifier have none; the printed document has one when a printed field has one.
\<close>

definition dot :: int where
  "dot = 46"

fun hasDot :: "key \<Rightarrow> bool" where
  "hasDot (IdText i) = False"
| "hasDot (InspectText p) =
     (dot \<in> set (pf_firstName p) \<or> dot \<in> set (pf_lastName p)
      \<or> (case pf_avatar p of None \<Rightarrow> False | Some a \<Rightarrow> dot \<in> set a))"

record conversation =
  c_id :: oid
  participants :: "participant list"
  serviceId :: "oid option"
  serviceTitle :: "jstring option"
  lastMessage :: last_message
  isActive :: bool
  unreadCount :: "(key \<times> int) list"
  c_createdAt :: date

record attachment =
  a_type :: "jstring option"
  url :: jstring
  filename :: jstring
  size :: nat

record message =
  m_id :: oid
  conversationId :: oid
  senderId :: oid
  senderName :: jstring
  content :: jstring
  messageType :: jstring
  attachments :: "attachment list"
  isRead :: bool
  readAt :: "date option"
  isEdited :: bool
  editedAt :: "date option"
  replyTo :: "oid option"
  m_createdAt :: date

record user =
  u_id :: oid
  firstName :: jstring
  lastName :: jstring
  avatar :: "jstring option"
  u_isActive :: bool

record service =
  s_id :: oid
  title :: jstring
  s_isActive :: bool

text \<open>
  The database: one list a collection, in insertion order (the natural order \<open>findOne\<close>
  follows), and the clock that \<open>new Date()\<close> and \<open>Date.now\<close> read.
\<close>

record db =
  users :: "user list"
  services :: "service list"
  conversations :: "conversation list"
  messages :: "message list"
  clock :: date

text \<open>Time passes between requests; it never runs backwards.\<close>

definition tick :: "nat \<Rightarrow> db \<Rightarrow> db" where
  "tick d s = s\<lparr>clock := clock s + d\<rparr>"

text \<open>A new ObjectId differs from every identifier in use.\<close>

definition newObjectId :: "oid list \<Rightarrow> oid" where
  "newObjectId used = Suc (fold max used 0)"

section \<open>The Conversation model\<close>

definition fullName :: "user \<Rightarrow> jstring" where
  "fullName u = firstName u @ js '' '' @ lastName u"

definition addParticipant :: "conversation \<Rightarrow> oid \<Rightarrow> jstring \<Rightarrow> conversation" where
  "addParticipant c uid name =
     (let exists = list_ex (\<lambda>p. userId p = uid) (participants c)
      in if \<not> exists
         then c\<lparr>participants := participants c @ [\<lparr>userId = uid, userName = name\<rparr>]\<rparr>
         else c)"

definition removeParticipant :: "conversation \<Rightarrow> oid \<Rightarrow> conversation" where
  "removeParticipant c uid = c\<lparr>participants := filter (\<lambda>p. userId p \<noteq> uid) (participants c)\<rparr>"

text \<open>
  On a document as \<open>findById\<close> or \<open>create\<close> returns it the \<open>userId\<close> of a participant is an
  ObjectId, and \<open>p.userId.toString() === userId.toString()\<close> compares identifiers.
\<close>

definition hasParticipant :: "conversation \<Rightarrow> oid \<Rightarrow> bool" where
  "hasParticipant c uid = list_ex (\<lambda>p. userId p = uid) (participants c)"

text \<open>\<open>this.unreadCount.get(k) || 0\<close>: an absent key counts as 0.\<close>

definition getCount :: "(key \<times> int) list \<Rightarrow> key \<Rightarrow> int" where
  "getCount uc k = (case map_of uc k of None \<Rightarrow> 0 | Some n \<Rightarrow> n)"

text \<open>
  The body of the \<open>forEach\<close> over the participants in \<open>updateLastMessage\<close>, on such a
  document: the key is the text of an identifier, which \<open>Map.set\<close> accepts.
\<close>

definition bumpUnread :: "oid \<Rightarrow> participant \<Rightarrow> (key \<times> int) list \<Rightarrow> (key \<times> int) list" where
  "bumpUnread sender p uc =
     (if userId p \<noteq> sender
      then (let currentCount = getCount uc (IdText (userId p))
            in AList.update (IdText (userId p)) (currentCount + 1) uc)
      else uc)"

text \<open>
  \<open>save()\<close> of a conversation document writes it over the stored document of the same
  \<open>_id\<close>.
\<close>

fun replaceConversation :: "conversation \<Rightarrow> conversation list \<Rightarrow> conversation list" where
  "replaceConversation c [] = []"
| "replaceConversation c (d # ds) =
     (if c_id d = c_id c then c # ds else d # replaceConversation c ds)"

definition saveConversation :: "db \<Rightarrow> conversation \<Rightarrow> db" where
  "saveConversation s c =
     s\<lparr>conversations := replaceConversation c (conversations s)\<rparr>"

text \<open>The in-memory effect of \<open>updateLastMessage\<close>, at the time \<open>now\<close>, before its \<open>save()\<close>.\<close>

definition updateLastMessage :: "date \<Rightarrow> conversation \<Rightarrow> jstring \<Rightarrow> oid \<Rightarrow> conversation" where
  "updateLastMessage now c text sender =
     c\<lparr>lastMessage := \<lparr>lm_content = take 100 text, lm_senderId = Some sender, lm_timestamp = now\<rparr>,
       unreadCount := fold (bumpUnread sender) (participants c) (unreadCount c)\<rparr>"

definition markAsRead :: "conversation \<Rightarrow> oid \<Rightarrow> conversation" where
  "markAsRead c uid = c\<lparr>unreadCount := AList.update (IdText uid) 0 (unreadCount c)\<rparr>"

text \<open>
  The query of \<open>findBetweenUsers\<close>; the route that calls it gets the document populated
  (see \<open>populate\<close> below).
\<close>

definition findBetweenUsers :: "db \<Rightarrow> oid \<Rightarrow> oid \<Rightarrow> conversation option" where
  "findBetweenUsers s userId1 userId2 =
     find (\<lambda>c. (list_ex (\<lambda>p. userId p = userId1) (participants c)
                \<and> list_ex (\<lambda>p. userId p = userId2) (participants c))
               \<and> isActive c)
          (conversations s)"

text \<open>\<open>Conversation.create\<close>: the schema defaults fill what the call leaves out.\<close>

definition createConversation ::
  "db \<Rightarrow> user \<Rightarrow> user \<Rightarrow> oid option \<Rightarrow> jstring option \<Rightarrow> db \<times> conversation" where
  "createConversation s user1 user2 sid stitle =
     (let c = \<lparr>c_id = newObjectId (map c_id (conversations s)),
               participants = [\<lparr>userId = u_id user1, userName = fullName user1\<rparr>,
                               \<lparr>userId = u_id user2, userName = fullName user2\<rparr>],
               serviceId = sid,
               serviceTitle = stitle,
               lastMessage = \<lparr>lm_content = [], lm_senderId = None, lm_timestamp = clock s\<rparr>,
               isActive = True,
               unreadCount = AList.update (IdText (u_id user2)) 0
                               (AList.update (IdText (u_id user1)) 0 []),
               c_createdAt = clock s\<rparr>
      in (s\<lparr>conversations := conversations s @ [c]\<rparr>, c))"

subsection \<open>Populated documents\<close>

text \<open>
  \<open>populate('participants.userId', ...)\<close> keeps the document and puts, in place of the
  identifier of each participant, the User document of that identifier. Accounts are
  deactivated, never deleted, and a participant is a registered user, so the document is
  there; for an identifier without a user, which no route stores, the model takes a
  document with the identifier alone.
\<close>

record populated =
  doc :: conversation
  populatedUsers :: "profile list"

definition profileOf :: "user \<Rightarrow> profile" where
  "profileOf u = \<lparr>pf_id = u_id u, pf_firstName = firstName u, pf_lastName = lastName u,
                  pf_avatar = avatar u\<rparr>"

definition populateUser :: "db \<Rightarrow> oid \<Rightarrow> profile" where
  "populateUser s i =
     (case find (\<lambda>x. u_id x = i) (users s) of
        Some u \<Rightarrow> profileOf u
      | None \<Rightarrow> \<lparr>pf_id = i, pf_firstName = [], pf_lastName = [], pf_avatar = None\<rparr>)"

definition populate :: "db \<Rightarrow> conversation \<Rightarrow> populated" where
  "populate s c =
     \<lparr>doc = c, populatedUsers = map (\<lambda>p. populateUser s (userId p)) (participants c)\<rparr>"

text \<open>
  The same methods on a populated document. \<open>p.userId.toString()\<close> is now the printed User
  document, so the comparison with the text of an identifier never holds:
  \<open>hasParticipant\<close> finds nobody, and \<open>updateLastMessage\<close> takes every participant, the
  sender too, for somebody else and counts under the printed document as the key.
  \<open>Map.set\<close> throws when that key has a dot (\<open>None\<close>), before anything is saved.
\<close>

definition hasParticipantPopulated :: "populated \<Rightarrow> oid \<Rightarrow> bool" where
  "hasParticipantPopulated pc uid =
     list_ex (\<lambda>p. InspectText p = IdText uid) (populatedUsers pc)"

definition bumpUnreadPopulated ::
  "oid \<Rightarrow> profile \<Rightarrow> (key \<times> int) list \<Rightarrow> (key \<times> int) list option" where
  "bumpUnreadPopulated sender p uc =
     (if InspectText p \<noteq> IdText sender
      then (let currentCount = getCount uc (InspectText p)
            in if hasDot (InspectText p) then None
               else Some (AList.update (InspectText p) (currentCount + 1) uc))
      else Some uc)"

fun forEachPopulated ::
  "oid \<Rightarrow> profile list \<Rightarrow> (key \<times> int) list \<Rightarrow> (key \<times> int) list option" where
  "forEachPopulated sender [] uc = Some uc"
| "forEachPopulated sender (p # ps) uc =
     (case bumpUnreadPopulated sender p uc of
        None \<Rightarrow> None
      | Some uc' \<Rightarrow> forEachPopulated sender ps uc')"

definition updateLastMessagePopulated ::
  "date \<Rightarrow> populated \<Rightarrow> jstring \<Rightarrow> oid \<Rightarrow> populated option" where
  "updateLastMessagePopulated now pc text sender =
     (case forEachPopulated sender (populatedUsers pc) (unreadCount (doc pc)) of
        None \<Rightarrow> None
      | Some uc \<Rightarrow>
          Some (pc\<lparr>doc := (doc pc)\<lparr>lastMessage := \<lparr>lm_content = take 100 text,
                                                     lm_senderId = Some sender,
                                                     lm_timestamp = now\<rparr>,
                                     unreadCount := uc\<rparr>\<rparr>))"

text \<open>
  \<open>save()\<close> of a populated document writes what was modified, \<open>lastMessage\<close> and
  \<open>unreadCount\<close>; the participants of the stored document stay identifiers:
  \<open>saveConversation s (doc pc)\<close>.
\<close>

section \<open>The Message model\<close>

text \<open>
  The \<open>trim\<close> of the schema and of the request validators: white space off both ends.
  White space is what \<open>String.prototype.trim\<close> and the class \<open>\s\<close> of a regular expression
  take for it: tab, line feed, vertical tab, form feed, carriage return, space, no-break
  space, U+1680, U+2000 to U+200A, U+2028, U+2029, U+202F, U+205F, U+3000 and U+FEFF.
\<close>

definition isSpace :: "int \<Rightarrow> bool" where
  "isSpace c =
     (c \<in> set [0x09, 0x0A, 0x0B, 0x0C, 0x0D, 0x20, 0xA0, 0x1680, 0x2028, 0x2029, 0x202F,
                0x205F, 0x3000, 0xFEFF]
      \<or> (0x2000 \<le> c \<and> c \<le> 0x200A))"

definition trim :: "jstring \<Rightarrow> jstring" where
  "trim s = rev (dropWhile isSpace (rev (dropWhile isSpace s)))"

text \<open>
  The validators of \<open>messageSchema\<close> that \<open>save()\<close> runs: \<open>senderName\<close> and \<open>content\<close>
  are required (an empty string fails), \<open>content\<close> has \<open>maxlength\<close> 1000, which compares
  the \<open>.length\<close> of the string, \<open>messageType\<close> and the \<open>type\<close> of an attachment are enums.
\<close>

definition validMessage :: "message \<Rightarrow> bool" where
  "validMessage m =
     (senderName m \<noteq> [] \<and> content m \<noteq> [] \<and> length (content m) \<le> 1000
      \<and> messageType m \<in> set [js ''text'', js ''image'', js ''file'', js ''system'']
      \<and> list_all (\<lambda>a. case a_type a of None \<Rightarrow> True
                                         | Some t \<Rightarrow> t \<in> set [js ''image'', js ''file''])
                   (attachments m))"

text \<open>
  The validator \<open>isLength\<close> of the requests counts characters, not code units: from the
  \<open>.length\<close> it takes off the variation selectors U+FE0E and U+FE0F and one for each
  surrogate pair, which it finds from left to right.
\<close>

definition presentationSequences :: "jstring \<Rightarrow> nat" where
  "presentationSequences s = length (filter (\<lambda>c. c = 0xFE0F \<or> c = 0xFE0E) s)"

fun surrogatePairs :: "jstring \<Rightarrow> nat" where
  "surrogatePairs (a # b # s) =
     (if (0xD800 \<le> a \<and> a \<le> 0xDBFF) \<and> (0xDC00 \<le> b \<and> b \<le> 0xDFFF)
      then Suc (surrogatePairs s)
      else surrogatePairs (b # s))"
| "surrogatePairs s = 0"

definition isLengthCount :: "jstring \<Rightarrow> nat" where
  "isLengthCount s = length s - presentationSequences s - surrogatePairs s"



text \<open>
  \<open>new Message({...})\<close>: a new \<open>_id\<close>, the \<open>trim\<close> setter on \<open>content\<close>, the defaults of
  the schema for the rest.
\<close>

definition newMessage ::
  "db \<Rightarrow> oid \<Rightarrow> oid \<Rightarrow> jstring \<Rightarrow> jstring \<Rightarrow> jstring \<Rightarrow> attachment list \<Rightarrow> oid option \<Rightarrow> message"
  where
  "newMessage s cid sender name text mtype atts reply =
     \<lparr>m_id = newObjectId (map m_id (messages s)),
      conversationId = cid, senderId = sender, senderName = name,
      content = trim text, messageType = mtype, attachments = atts,
      isRead = False, readAt = None, isEdited = False, editedAt = None,
      replyTo = reply, m_createdAt = clock s\<rparr>"

text \<open>
  The \<open>post('save')\<close> middleware: \<open>Conversation.findByIdAndUpdate\<close> with a \<open>$set\<close> of the
  three \<open>lastMessage\<close> paths. It runs after every \<open>save()\<close> of a message document that
  succeeds; an update that finds no conversation changes nothing.
\<close>

fun updateConversationById ::
  "oid \<Rightarrow> (conversation \<Rightarrow> conversation) \<Rightarrow> conversation list \<Rightarrow> conversation list" where
  "updateConversationById i f [] = []"
| "updateConversationById i f (d # ds) =
     (if c_id d = i then f d # ds else d # updateConversationById i f ds)"

definition postSave :: "db \<Rightarrow> message \<Rightarrow> db" where
  "postSave s m =
     s\<lparr>conversations :=
         updateConversationById (conversationId m)
           (\<lambda>c. c\<lparr>lastMessage := \<lparr>lm_content = content m,
                                  lm_senderId = Some (senderId m),
                                  lm_timestamp = m_createdAt m\<rparr>\<rparr>)
           (conversations s)\<rparr>"

fun replaceMessage :: "message \<Rightarrow> message list \<Rightarrow> message list" where
  "replaceMessage m [] = []"
| "replaceMessage m (d # ds) =
     (if m_id d = m_id m then m # ds else d # replaceMessage m ds)"

text \<open>
  \<open>save()\<close> of a message document: validation (a failure is thrown: \<open>None\<close>), then the
  insert of a new document or the write over the stored one, then the middleware.
\<close>

definition saveMessage :: "db \<Rightarrow> message \<Rightarrow> db option" where
  "saveMessage s m =
     (if \<not> validMessage m then None
      else let isNew = \<not> list_ex (\<lambda>d. m_id d = m_id m) (messages s);
               s1 = s\<lparr>messages := (if isNew then messages s @ [m]
                                     else replaceMessage m (messages s))\<rparr>
           in Some (postSave s1 m))"

text \<open>The two document methods of a message; both end in \<open>this.save()\<close>.\<close>

definition message_markAsRead :: "db \<Rightarrow> message \<Rightarrow> db option" where
  "message_markAsRead s m = saveMessage s (m\<lparr>isRead := True, readAt := Some (clock s)\<rparr>)"

definition editContent :: "db \<Rightarrow> message \<Rightarrow> jstring \<Rightarrow> db option" where
  "editContent s m newContent =
     saveMessage s (m\<lparr>content := trim newContent, isEdited := True, editedAt := Some (clock s)\<rparr>)"

text \<open>\<open>sort({ createdAt: -1 })\<close>: newest first.\<close>

definition newestFirst :: "message list \<Rightarrow> message list" where
  "newestFirst ms = sort_key (\<lambda>m. - int (m_createdAt m)) ms"

definition getForConversation :: "db \<Rightarrow> oid \<Rightarrow> nat \<Rightarrow> nat \<Rightarrow> message list" where
  "getForConversation s cid lim skip =
     take lim (drop skip (newestFirst (filter (\<lambda>m. conversationId m = cid) (messages s))))"

text \<open>\<open>updateMany\<close> over the unread messages of the conversation that \<open>userId\<close> did not send.\<close>

definition markConversationAsRead :: "db \<Rightarrow> oid \<Rightarrow> oid \<Rightarrow> db" where
  "markConversationAsRead s cid uid =
     s\<lparr>messages :=
         map (\<lambda>m. if conversationId m = cid \<and> senderId m \<noteq> uid \<and> isRead m = False
                  then m\<lparr>isRead := True, readAt := Some (clock s)\<rparr>
                  else m)
             (messages s)\<rparr>"

text \<open>
  The aggregation pipeline of \<open>getUnreadCount\<close>, stage by stage: \<open>$lookup\<close> joins the
  conversations of a message, \<open>$match\<close> keeps the unread messages of others in the
  conversations of \<open>userId\<close>, the first \<open>$group\<close> counts them a conversation, the second sums
  the counts into one document. A \<open>$group\<close> over no document gives no document.
\<close>

definition lookupConversation :: "db \<Rightarrow> message \<Rightarrow> conversation list" where
  "lookupConversation s m = filter (\<lambda>c. c_id c = conversationId m) (conversations s)"

definition matchUnread :: "db \<Rightarrow> oid \<Rightarrow> message \<Rightarrow> bool" where
  "matchUnread s uid m =
     (list_ex (\<lambda>c. list_ex (\<lambda>p. userId p = uid) (participants c)) (lookupConversation s m)
      \<and> senderId m \<noteq> uid \<and> isRead m = False)"

definition groupByConversation :: "message list \<Rightarrow> (oid \<times> int) list" where
  "groupByConversation ms =
     map (\<lambda>cid. (cid, int (length (filter (\<lambda>m. conversationId m = cid) ms))))
         (remdups (map conversationId ms))"

definition groupTotal :: "(oid \<times> int) list \<Rightarrow> int list" where
  "groupTotal gs = (if gs = [] then [] else [sum_list (map snd gs)])"

definition getUnreadCount :: "db \<Rightarrow> oid \<Rightarrow> int list" where
  "getUnreadCount s uid =
     groupTotal (groupByConversation (filter (matchUnread s uid) (messages s)))"

text \<open>
  \<open>searchInConversation\<close> hands the query to MongoDB as a regular expression with the
  option \<open>i\<close>. The engine is the database's: it is a parameter here, giving for a pattern
  the test it compiles to, or nothing for a pattern it rejects (the query then throws).
\<close>

type_synonym regex_engine = "jstring \<Rightarrow> (jstring \<Rightarrow> bool) option"

definition searchInConversation :: "regex_engine \<Rightarrow> db \<Rightarrow> oid \<Rightarrow> jstring \<Rightarrow> message list option"
  where
  "searchInConversation rx s cid query =
     (case rx query of
        None \<Rightarrow> None
      | Some matches \<Rightarrow>
          Some (take 10 (newestFirst
                 (filter (\<lambda>m. conversationId m = cid \<and> matches (content m)) (messages s)))))"

text \<open>
  Reading a query as plain text: lower case for the comparison that ignores case, the
  characters that the syntax of regular expressions reserves, a query with none of them,
  and an engine that, for a given query, tests whether the text contains it as a substring,
  ignoring case.
\<close>

definition toLower :: "int \<Rightarrow> int" where
  "toLower c = (if 65 \<le> c \<and> c \<le> 90 then c + 32 else c)"

definition lower :: "jstring \<Rightarrow> jstring" where
  "lower s = map toLower s"

definition regexMetachar :: "int \<Rightarrow> bool" where
  "regexMetachar c = (c \<in> set (js (CHR 0x5C # ''^$.|?*+()[]{}'')))"

definition plainQuery :: "jstring \<Rightarrow> bool" where
  "plainQuery q = list_all (\<lambda>c. \<not> regexMetachar c) q"

definition searchesSubstring :: "regex_engine \<Rightarrow> jstring \<Rightarrow> bool" where
  "searchesSubstring rx q =
     (case rx q of None \<Rightarrow> False
      | Some matches \<Rightarrow> \<forall>t. matches t = sublist (lower q) (lower t))"

section \<open>The message router\<close>

text \<open>
  A handler answers with a success payload or with a failure: an HTTP status and a
  message, named here after the message. The \<open>catch\<close> of every handler turns whatever is
  thrown into the status 500. The requester \<open>u\<close> is \<open>req.user\<close>, the user that the
  authentication middleware found. The payloads leave the profiles of the users out.
\<close>

datatype rule = NotEmpty | IsLength | IsIn | IsMongoId | IsInt

datatype failure =
    InvalidData "(string \<times> rule) list"
  | InvalidParams "(string \<times> rule) list"
  | SelfConversation
  | UserNotFound
  | ServiceNotFound
  | ConversationNotFound
  | AccessDenied
  | ServerError

fun status :: "failure \<Rightarrow> nat" where
  "status (InvalidData ds) = 400"
| "status (InvalidParams ds) = 400"
| "status SelfConversation = 400"
| "status UserNotFound = 404"
| "status ServiceNotFound = 404"
| "status ConversationNotFound = 404"
| "status AccessDenied = 403"
| "status ServerError = 500"

text \<open>
  An identifier arrives as text. \<open>ObjectId i\<close> is the canonical text of the identifier
  \<open>i\<close>, the one that \<open>toString()\<close> returns, with its hexadecimal digits in lower case;
  \<open>Respelled i\<close> is another text of the same 24 digits, with letters in upper case, which
  \<open>isMongoId\<close> accepts and which Mongoose casts to the same identifier. Any other text is
  \<open>Malformed\<close>: \<open>isMongoId\<close> refuses it and the cast throws. An integer of the query string
  is well formed or not.
\<close>

datatype id_text = Malformed | ObjectId oid | Respelled oid

fun castId :: "id_text \<Rightarrow> oid option" where
  "castId Malformed = None"
| "castId (ObjectId i) = Some i"
| "castId (Respelled i) = Some i"

datatype int_text = NotInt | IntText int

text \<open>
  The chain \<open>trim().notEmpty().isLength({ min: 1, max: 1000 })\<close> on a field, given the
  trimmed value: every validator that fails reports, in order.
\<close>

definition textErrors :: "string \<Rightarrow> jstring \<Rightarrow> (string \<times> rule) list" where
  "textErrors field v =
     (if v = [] then [(field, NotEmpty)] else [])
     @ (if isLengthCount v < 1 \<or> 1000 < isLengthCount v then [(field, IsLength)] else [])"

definition mongoIdErrors :: "string \<Rightarrow> id_text option \<Rightarrow> (string \<times> rule) list" where
  "mongoIdErrors field v =
     (case v of None \<Rightarrow> [] | Some Malformed \<Rightarrow> [(field, IsMongoId)] | Some t \<Rightarrow> [])"

definition intErrors :: "string \<Rightarrow> int \<Rightarrow> int option \<Rightarrow> int_text option \<Rightarrow> (string \<times> rule) list"
  where
  "intErrors field lo hi v =
     (case v of
        None \<Rightarrow> []
      | Some NotInt \<Rightarrow> [(field, IsInt)]
      | Some (IntText n) \<Rightarrow>
          (if lo \<le> n \<and> (case hi of None \<Rightarrow> True | Some h \<Rightarrow> n \<le> h) then []
           else [(field, IsInt)]))"

definition findConversationById :: "db \<Rightarrow> oid \<Rightarrow> conversation option" where
  "findConversationById s cid = find (\<lambda>c. c_id c = cid) (conversations s)"

subsection \<open>GET /conversations/:conversationId\<close>

record conversation_view =
  v_id :: oid
  v_otherId :: oid
  v_otherName :: jstring
  v_service :: "oid option"
  v_createdAt :: date

text \<open>
  The handler populates the document it finds, and then asks \<open>hasParticipant\<close>: on the
  populated document. The other participant is the one whose \<open>userId._id\<close> is not the
  requester's.
\<close>

definition openConversation :: "db \<Rightarrow> user \<Rightarrow> id_text \<Rightarrow> (failure + conversation_view) \<times> db" where
  "openConversation s u cidp =
     (case castId cidp of
        None \<Rightarrow> (Inl ServerError, s)
      | Some cid \<Rightarrow>
          (case map_option (populate s) (findConversationById s cid) of
             None \<Rightarrow> (Inl ConversationNotFound, s)
           | Some pc \<Rightarrow>
               if \<not> isActive (doc pc) then (Inl ConversationNotFound, s)
               else if \<not> hasParticipantPopulated pc (u_id u) then (Inl AccessDenied, s)
               else
                 (let s1 = saveConversation s (markAsRead (doc pc) (u_id u))
                  in case find (\<lambda>(p, pu). pf_id pu \<noteq> u_id u)
                               (zip (participants (doc pc)) (populatedUsers pc)) of
                       None \<Rightarrow> (Inl ServerError, s1)
                     | Some (other, pu) \<Rightarrow>
                         (Inr \<lparr>v_id = c_id (doc pc), v_otherId = pf_id pu,
                               v_otherName = userName other, v_service = serviceId (doc pc),
                               v_createdAt = c_createdAt (doc pc)\<rparr>, s1))))"

subsection \<open>GET /conversations/:conversationId/messages\<close>

record page_info =
  current :: int
  total :: int
  count :: nat
  totalItems :: nat

definition listMessages ::
  "db \<Rightarrow> user \<Rightarrow> id_text \<Rightarrow> int_text option \<Rightarrow> int_text option
     \<Rightarrow> (failure + message list \<times> page_info) \<times> db" where
  "listMessages s u cidp pageq limitq =
     (let errors = intErrors ''page'' 1 None pageq @ intErrors ''limit'' 1 (Some 100) limitq
      in if errors \<noteq> [] then (Inl (InvalidParams errors), s)
         else
           (let page = (case pageq of Some (IntText n) \<Rightarrow> n | _ \<Rightarrow> 1);
                lim = (case limitq of Some (IntText n) \<Rightarrow> n | _ \<Rightarrow> 50)
            in case castId cidp of
                 None \<Rightarrow> (Inl ServerError, s)
               | Some cid \<Rightarrow>
                   (case findConversationById s cid of
                      None \<Rightarrow> (Inl ConversationNotFound, s)
                    | Some conv \<Rightarrow>
                        if \<not> hasParticipant conv (u_id u) then (Inl ConversationNotFound, s)
                        else
                          (let skip = (page - 1) * lim;
                               ms = getForConversation s cid (nat lim) (nat skip);
                               n = length (filter (\<lambda>m. conversationId m = cid) (messages s));
                               s1 = markConversationAsRead s cid (u_id u)
                           in (Inr (rev ms,
                                    \<lparr>current = page, total = (int n + lim - 1) div lim,
                                     count = length ms, totalItems = n\<rparr>), s1)))))"

subsection \<open>POST /conversations/:conversationId/messages\<close>

record send_body =
  b_content :: jstring
  b_messageType :: "jstring option"
  b_attachments :: "attachment list"
  b_replyTo :: "id_text option"

definition messageValidation :: "send_body \<Rightarrow> (string \<times> rule) list" where
  "messageValidation b =
     textErrors ''content'' (trim (b_content b))
     @ (case b_messageType b of
          None \<Rightarrow> []
        | Some t \<Rightarrow> if t \<in> set [js ''text'', js ''image'', js ''file'', js ''system''] then []
                    else [(''messageType'', IsIn)])"

text \<open>
  The handler reads the sanitised body: \<open>content\<close> trimmed. A \<open>replyTo\<close> that is no ObjectId
  fails the cast of the document, and \<open>save()\<close> throws. The conversation comes from
  \<open>findById\<close>, not populated.
\<close>

definition sendMessage :: "db \<Rightarrow> user \<Rightarrow> id_text \<Rightarrow> send_body \<Rightarrow> (failure + message) \<times> db" where
  "sendMessage s u cidp b =
     (let errors = messageValidation b
      in if errors \<noteq> [] then (Inl (InvalidData errors), s)
         else
           (let text = trim (b_content b);
                mtype = (case b_messageType b of None \<Rightarrow> js ''text'' | Some t \<Rightarrow> t)
            in case castId cidp of
                 None \<Rightarrow> (Inl ServerError, s)
               | Some cid \<Rightarrow>
                   (case findConversationById s cid of
                      None \<Rightarrow> (Inl ConversationNotFound, s)
                    | Some conv \<Rightarrow>
                        if \<not> hasParticipant conv (u_id u) then (Inl ConversationNotFound, s)
                        else
                          (case b_replyTo b of
                             Some Malformed \<Rightarrow> (Inl ServerError, s)
                           | reply \<Rightarrow>
                               (let m = newMessage s cid (u_id u) (fullName u) text mtype
                                          (b_attachments b)
                                          (case reply of Some t \<Rightarrow> castId t | None \<Rightarrow> None)
                                in case saveMessage s m of
                                     None \<Rightarrow> (Inl ServerError, s)
                                   | Some s1 \<Rightarrow>
                                       (Inr m, saveConversation s1
                                                 (updateLastMessage (clock s1) conv text (u_id u))))))))"

subsection \<open>POST /conversations\<close>

record create_body =
  participantId :: "id_text option"
  cb_serviceId :: "id_text option"
  initialMessage :: jstring

definition createValidation :: "create_body \<Rightarrow> (string \<times> rule) list" where
  "createValidation b =
     (case participantId b of
        None \<Rightarrow> [(''participantId'', NotEmpty), (''participantId'', IsMongoId)]
      | Some Malformed \<Rightarrow> [(''participantId'', IsMongoId)]
      | Some t \<Rightarrow> [])
     @ mongoIdErrors ''serviceId'' (cb_serviceId b)
     @ textErrors ''initialMessage'' (trim (initialMessage b))"

text \<open>
  The end of the handler, once the conversation is there. A conversation just created is
  the document that \<open>create\<close> returned.
\<close>

definition sendInitialMessage ::
  "db \<Rightarrow> user \<Rightarrow> conversation \<Rightarrow> jstring \<Rightarrow> (failure + oid) \<times> db" where
  "sendInitialMessage s u conv text =
     (let m = newMessage s (c_id conv) (u_id u) (fullName u) text (js ''text'') [] None
      in case saveMessage s m of
           None \<Rightarrow> (Inl ServerError, s)
         | Some s1 \<Rightarrow>
             (Inr (c_id conv),
              saveConversation s1 (updateLastMessage (clock s1) conv text (u_id u))))"

text \<open>
  A conversation that \<open>findBetweenUsers\<close> found is populated. The message is saved first;
  when \<open>updateLastMessage\<close> then throws, the message stays and the summary is not saved.
\<close>

definition sendInitialMessagePopulated ::
  "db \<Rightarrow> user \<Rightarrow> populated \<Rightarrow> jstring \<Rightarrow> (failure + oid) \<times> db" where
  "sendInitialMessagePopulated s u pc text =
     (let m = newMessage s (c_id (doc pc)) (u_id u) (fullName u) text (js ''text'') [] None
      in case saveMessage s m of
           None \<Rightarrow> (Inl ServerError, s)
         | Some s1 \<Rightarrow>
             (case updateLastMessagePopulated (clock s1) pc text (u_id u) of
                None \<Rightarrow> (Inl ServerError, s1)
              | Some pc' \<Rightarrow> (Inr (c_id (doc pc)), saveConversation s1 (doc pc'))))"

text \<open>
  The check against a conversation with oneself compares the text of \<open>participantId\<close> with
  \<open>req.user._id.toString()\<close>: it holds for the canonical text of the requester's identifier
  only. The queries that follow cast the text to an identifier.
\<close>

definition getOrCreateConversation :: "db \<Rightarrow> user \<Rightarrow> create_body \<Rightarrow> (failure + oid) \<times> db" where
  "getOrCreateConversation s u b =
     (let errors = createValidation b
      in if errors \<noteq> [] then (Inl (InvalidData errors), s)
         else
           (case participantId b of
              None \<Rightarrow> (Inl ServerError, s)
            | Some ptext \<Rightarrow>
                if ptext = ObjectId (u_id u) then (Inl SelfConversation, s)
                else
                  (case castId ptext of
                     None \<Rightarrow> (Inl ServerError, s)
                   | Some pid \<Rightarrow>
                  (case find (\<lambda>x. u_id x = pid) (users s) of
                     None \<Rightarrow> (Inl UserNotFound, s)
                   | Some otherUser \<Rightarrow>
                       if \<not> u_isActive otherUser then (Inl UserNotFound, s)
                       else
                         (case findBetweenUsers s (u_id u) pid of
                            Some conv \<Rightarrow>
                              sendInitialMessagePopulated s u (populate s conv)
                                (trim (initialMessage b))
                          | None \<Rightarrow>
                              (case cb_serviceId b of
                                 None \<Rightarrow>
                                   (let (s1, conv) = createConversation s u otherUser None None
                                    in sendInitialMessage s1 u conv (trim (initialMessage b)))
                               | Some stext \<Rightarrow>
                                   (case castId stext of
                                      None \<Rightarrow> (Inl ServerError, s)
                                    | Some sid \<Rightarrow>
                                   (case find (\<lambda>x. s_id x = sid) (services s) of
                                      None \<Rightarrow> (Inl ServiceNotFound, s)
                                    | Some sv \<Rightarrow>
                                        if \<not> s_isActive sv then (Inl ServiceNotFound, s)
                                        else
                                          (let (s1, conv) = createConversation s u otherUser
                                                              (Some sid) (Some (title sv))
                                           in sendInitialMessage s1 u conv
                                                (trim (initialMessage b)))))))))))"

subsection \<open>PUT /conversations/:conversationId/read\<close>

definition markConversationRead :: "db \<Rightarrow> user \<Rightarrow> id_text \<Rightarrow> (failure + unit) \<times> db" where
  "markConversationRead s u cidp =
     (case castId cidp of
        None \<Rightarrow> (Inl ServerError, s)
      | Some cid \<Rightarrow>
          (case findConversationById s cid of
             None \<Rightarrow> (Inl ConversationNotFound, s)
           | Some conv \<Rightarrow>
               if \<not> hasParticipant conv (u_id u) then (Inl ConversationNotFound, s)
               else
                 (let s1 = saveConversation s (markAsRead conv (u_id u));
                      s2 = markConversationAsRead s1 cid (u_id u)
                  in (Inr (), s2))))"

subsection \<open>GET /unread-count\<close>

definition unreadTotal :: "db \<Rightarrow> user \<Rightarrow> (failure + int) \<times> db" where
  "unreadTotal s u =
     (let result = getUnreadCount s (u_id u);
          unread = (case result of [] \<Rightarrow> 0 | r # rs \<Rightarrow> r)
      in (Inr unread, s))"

subsection \<open>GET /search\<close>

definition searchValidation :: "jstring \<Rightarrow> id_text option \<Rightarrow> (string \<times> rule) list" where
  "searchValidation q cidq =
     (if trim q = [] then [(''q'', NotEmpty)] else [])
     @ mongoIdErrors ''conversationId'' cidq"

definition searchMessages ::
  "regex_engine \<Rightarrow> db \<Rightarrow> user \<Rightarrow> jstring \<Rightarrow> id_text option \<Rightarrow> (failure + message list) \<times> db"
  where
  "searchMessages rx s u q cidq =
     (let errors = searchValidation q cidq
      in if errors \<noteq> [] then (Inl (InvalidParams errors), s)
         else
           (case cidq of
              Some ctext \<Rightarrow>
                (case castId ctext of
                   None \<Rightarrow> (Inl ServerError, s)
                 | Some cid \<Rightarrow>
                (case findConversationById s cid of
                   None \<Rightarrow> (Inl ConversationNotFound, s)
                 | Some conv \<Rightarrow>
                     if \<not> hasParticipant conv (u_id u) then (Inl ConversationNotFound, s)
                     else
                       (case searchInConversation rx s cid (trim q) of
                          None \<Rightarrow> (Inl ServerError, s)
                        | Some ms \<Rightarrow> (Inr ms, s))))
            | None \<Rightarrow>
                (let userConversations =
                       filter (\<lambda>c. list_ex (\<lambda>p. userId p = u_id u) (participants c) \<and> isActive c)
                              (conversations s);
                     conversationIds = map c_id userConversations
                 in case rx (trim q) of
                      None \<Rightarrow> (Inl ServerError, s)
                    | Some matches \<Rightarrow>
                        (Inr (take 20 (newestFirst
                               (filter (\<lambda>m. conversationId m \<in> set conversationIds
                                            \<and> matches (content m))
                                       (messages s)))), s))))"

section \<open>The life of the conversations\<close>

text \<open>
  One step of the system: time passes, or the router serves one of the requests that
  change the database. A reachable database is one that the requests build from a database
  without conversations.
\<close>

inductive step :: "db \<Rightarrow> db \<Rightarrow> bool" where
  Tick: "step s (tick d s)"
| Create: "step s (snd (getOrCreateConversation s u cb))"
| Send: "step s (snd (sendMessage s u cidp b))"
| Open: "step s (snd (openConversation s u cidp))"
| List: "step s (snd (listMessages s u cidp pageq limitq))"
| Read: "step s (snd (markConversationRead s u cidp))"

inductive reachable :: "db \<Rightarrow> bool" where
  Init: "conversations s = [] \<Longrightarrow> reachable s"
| Step: "reachable s \<Longrightarrow> step s s' \<Longrightarrow> reachable s'"

text \<open>
  A conversation is well formed when it has exactly two participants and its \<open>unreadCount\<close>
  has, for each of them, an entry that is not negative.
\<close>

definition wellFormed :: "conversation \<Rightarrow> bool" where
  "wellFormed c =
     (length (participants c) = 2
      \<and> list_all (\<lambda>p. case map_of (unreadCount c) (IdText (userId p)) of
                          None \<Rightarrow> False | Some n \<Rightarrow> 0 \<le> n)
                  (participants c))"

definition timestamp :: "conversation \<Rightarrow> date" where
  "timestamp c = lm_timestamp (lastMessage c)"

text \<open>The invariant of the database, and what a step keeps of the conversations.\<close>

definition invariant :: "db \<Rightarrow> bool" where
  "invariant s = list_all (\<lambda>c. wellFormed c \<and> timestamp c \<le> clock s) (conversations s)"

definition later :: "db \<Rightarrow> db \<Rightarrow> bool" where
  "later s s' =
     (clock s \<le> clock s' \<and> length (conversations s) \<le> length (conversations s')
      \<and> (\<forall>k < length (conversations s).
            c_id (conversations s' ! k) = c_id (conversations s ! k)
            \<and> timestamp (conversations s ! k) \<le> timestamp (conversations s' ! k)))"

section \<open>A small database for the examples\<close>

definition alice :: user where
  "alice = \<lparr>u_id = 1, firstName = js ''Alice'', lastName = js ''Martin'', avatar = None,
             u_isActive = True\<rparr>"

definition bob :: user where
  "bob = \<lparr>u_id = 2, firstName = js ''Bob'', lastName = js ''Durand'', avatar = None,
           u_isActive = True\<rparr>"

definition carol :: user where
  "carol = \<lparr>u_id = 3, firstName = js ''Carol'', lastName = js ''Petit'', avatar = None,
             u_isActive = True\<rparr>"

text \<open>A user whose first name has dots; the registration accepts it.\<close>

definition jr :: user where
  "jr = \<lparr>u_id = 4, firstName = js ''J.R.'', lastName = js ''Ewing'', avatar = None,
          u_isActive = True\<rparr>"

definition msg1 :: message where
  "msg1 = \<lparr>m_id = 100, conversationId = 10, senderId = 2, senderName = js ''Bob Durand'',
            content = js ''Salut'', messageType = js ''text'', attachments = [],
            isRead = False, readAt = None, isEdited = False, editedAt = None,
            replyTo = None, m_createdAt = 50\<rparr>"

definition msg2 :: message where
  "msg2 = \<lparr>m_id = 101, conversationId = 10, senderId = 1, senderName = js ''Alice Martin'',
            content = js ''Bonjour Bob'', messageType = js ''text'', attachments = [],
            isRead = False, readAt = None, isEdited = False, editedAt = None,
            replyTo = None, m_createdAt = 55\<rparr>"

definition conv_ab :: conversation where
  "conv_ab = \<lparr>c_id = 10,
               participants = [\<lparr>userId = 1, userName = js ''Alice Martin''\<rparr>,
                               \<lparr>userId = 2, userName = js ''Bob Durand''\<rparr>],
               serviceId = None, serviceTitle = None,
               lastMessage = \<lparr>lm_content = js ''Bonjour Bob'', lm_senderId = Some 1,
                               lm_timestamp = 55\<rparr>,
               isActive = True,
               unreadCount = [(IdText 1, 1), (IdText 2, 1)],
               c_createdAt = 40\<rparr>"

definition db0 :: db where
  "db0 = \<lparr>users = [alice, bob, carol], services = [], conversations = [conv_ab],
           messages = [msg1, msg2], clock = 60\<rparr>"

definition body_merci :: send_body where
  "body_merci = \<lparr>b_content = js '' Merci '', b_messageType = None, b_attachments = [],
                  b_replyTo = None\<rparr>"

definition body_self :: create_body where
  "body_self = \<lparr>participantId = Some (ObjectId 1), cb_serviceId = None,
                 initialMessage = js ''Bonjour''\<rparr>"

text \<open>The identifier of Alice again, its letters in upper case.\<close>

definition body_self_upper :: create_body where
  "body_self_upper = \<lparr>participantId = Some (Respelled 1), cb_serviceId = None,
                       initialMessage = js ''Bonjour''\<rparr>"



text \<open>
  A regular-expression engine for the examples. It knows the patterns made of literal
  characters and of the dot, which stands for any character but the line feed; it looks for
  a match anywhere in the text and ignores case. Every other pattern it rejects.
\<close>

fun matchHere :: "jstring \<Rightarrow> jstring \<Rightarrow> bool" where
  "matchHere [] t = True"
| "matchHere (p # ps) [] = False"
| "matchHere (p # ps) (c # cs) =
     ((if p = dot then c \<noteq> 0x0A else toLower p = toLower c) \<and> matchHere ps cs)"

fun matchAnywhere :: "jstring \<Rightarrow> jstring \<Rightarrow> bool" where
  "matchAnywhere p [] = matchHere p []"
| "matchAnywhere p (c # cs) = (matchHere p (c # cs) \<or> matchAnywhere p cs)"

definition literalDotEngine :: regex_engine where
  "literalDotEngine p =
     (if list_all (\<lambda>c. c = dot \<or> \<not> regexMetachar c) p then Some (matchAnywhere p) else None)"

definition db_empty :: db where
  "db_empty = \<lparr>users = [alice, bob, carol, jr], services = [], conversations = [],
                messages = [], clock = 10\<rparr>"

definition body_bonjour :: create_body where
  "body_bonjour = \<lparr>participantId = Some (ObjectId 2), cb_serviceId = None,
                    initialMessage = js ''Bonjour''\<rparr>"

definition db_first :: db where
  "db_first = snd (getOrCreateConversation db_empty alice body_bonjour)"

definition db_second :: db where
  "db_second = snd (sendMessage db_first bob (ObjectId 1) body_merci)"

text \<open>Alice writes to Bob once more through \<open>POST /conversations\<close>, and to J.R. twice.\<close>

definition body_encore :: create_body where
  "body_encore = \<lparr>participantId = Some (ObjectId 2), cb_serviceId = None,
                   initialMessage = js ''Encore''\<rparr>"

definition body_jr :: create_body where
  "body_jr = \<lparr>participantId = Some (ObjectId 4), cb_serviceId = None,
               initialMessage = js ''Bonjour''\<rparr>"

definition db_jr :: db where
  "db_jr = snd (getOrCreateConversation db_empty alice body_jr)"

text \<open>A message of 999 letters and one character beyond the basic plane: 1001 code units.\<close>

definition astral_text :: jstring where
  "astral_text = replicate 999 97 @ [0xD83D, 0xDE00]"

definition body_astral :: send_body where
  "body_astral = \<lparr>b_content = astral_text, b_messageType = None,
                   b_attachments = [], b_replyTo = None\<rparr>"

definition body_astral_create :: create_body where
  "body_astral_create = \<lparr>participantId = Some (ObjectId 2), cb_serviceId = None,
                          initialMessage = astral_text\<rparr>"

section \<open>Lemmas about the model\<close>

subsection \<open>The unread counters\<close>

lemma map_of_update_alist:
  "map_of (AList.update k v al) k' = (if k' = k then Some v else map_of al k')"
  by (simp add: update_conv')

lemma getCount_update:
  "getCount (AList.update k v al) k' = (if k' = k then v else getCount al k')"
  by (simp add: getCount_def map_of_update_alist)

lemma fold_bumpUnread_sender:
  "map_of (fold (bumpUnread sender) ps uc) (IdText sender) = map_of uc (IdText sender)"
  by (induction ps arbitrary: uc) (auto simp: bumpUnread_def map_of_update_alist Let_def)

lemma fold_bumpUnread_absent:
  "k \<notin> (\<lambda>p. IdText (userId p)) ` set ps \<Longrightarrow>
     map_of (fold (bumpUnread sender) ps uc) k = map_of uc k"
  by (induction ps arbitrary: uc) (auto simp: bumpUnread_def map_of_update_alist Let_def)

lemma fold_bumpUnread_other:
  "distinct (map userId ps) \<Longrightarrow> i \<in> userId ` set ps \<Longrightarrow> i \<noteq> sender \<Longrightarrow>
     map_of (fold (bumpUnread sender) ps uc) (IdText i) = Some (getCount uc (IdText i) + 1)"
proof (induction ps arbitrary: uc)
  case Nil
  then show ?case by simp
next
  case (Cons p ps)
  show ?case
  proof (cases "userId p = i")
    case True
    with Cons.prems have "IdText i \<notin> (\<lambda>p. IdText (userId p)) ` set ps" by auto
    then have "map_of (fold (bumpUnread sender) ps (bumpUnread sender p uc)) (IdText i)
                 = map_of (bumpUnread sender p uc) (IdText i)"
      by (rule fold_bumpUnread_absent)
    moreover have "bumpUnread sender p uc
                     = AList.update (IdText i) (getCount uc (IdText i) + 1) uc"
      using True Cons.prems(3) by (simp add: bumpUnread_def Let_def)
    ultimately show ?thesis by (simp add: map_of_update_alist)
  next
    case False
    with Cons.prems have "i \<in> userId ` set ps" "distinct (map userId ps)" by auto
    then show ?thesis using False Cons.IH [of "bumpUnread sender p uc"] Cons.prems(3)
      by (auto simp add: bumpUnread_def Let_def getCount_update)
  qed
qed

text \<open>On a populated document the loop leaves the counters of the identifiers alone.\<close>

lemma forEachPopulated_id:
  "forEachPopulated sender ps uc = Some uc' \<Longrightarrow> map_of uc' (IdText i) = map_of uc (IdText i)"
proof (induction ps arbitrary: uc)
  case Nil
  then show ?case by simp
next
  case (Cons p ps)
  from Cons.prems obtain uc1 where b: "bumpUnreadPopulated sender p uc = Some uc1"
    and r: "forEachPopulated sender ps uc1 = Some uc'"
    by (auto split: option.splits)
  from b have "map_of uc1 (IdText i) = map_of uc (IdText i)"
    by (auto simp: bumpUnreadPopulated_def Let_def map_of_update_alist split: if_splits)
  with Cons.IH [OF r] show ?case by simp
qed

lemma hasParticipantPopulated_never: "\<not> hasParticipantPopulated pc uid"
  by (simp add: hasParticipantPopulated_def list_ex_iff)

subsection \<open>Trimming\<close>

lemma dropWhile_rev_dropWhile:
  "dropWhile P (rev (dropWhile P (rev (dropWhile P s)))) = rev (dropWhile P (rev (dropWhile P s)))"
proof -
  let ?a = "dropWhile P s"
  let ?b = "dropWhile P (rev ?a)"
  show ?thesis
  proof (cases "?b = []")
    case True
    show ?thesis unfolding True by simp
  next
    case False
    have "rev ?a = takeWhile P (rev ?a) @ ?b" by simp
    then have "?a = rev ?b @ rev (takeWhile P (rev ?a))"
      by (metis rev_append rev_rev_ident)
    then have "hd ?a = hd (rev ?b)" using False by (metis hd_append2 rev_is_Nil_conv)
    moreover have "?a \<noteq> []"
    proof
      assume e: "?a = []"
      have "?b = []" unfolding e by simp
      with False show False by contradiction
    qed
    then have "\<not> P (hd ?a)" by (rule hd_dropWhile)
    ultimately have "\<not> P (hd (rev ?b))" by simp
    then show ?thesis by (simp add: dropWhile_eq_self_iff)
  qed
qed

lemma trim_trim: "trim (trim s) = trim s"
proof -
  let ?b = "dropWhile isSpace (rev (dropWhile isSpace s))"
  have "dropWhile isSpace ?b = ?b" by (simp add: dropWhile_eq_self_iff hd_dropWhile)
  then show ?thesis by (simp add: trim_def dropWhile_rev_dropWhile)
qed

subsection \<open>Finding and saving conversations\<close>

lemma find_replaceConversation:
  "find (\<lambda>d. c_id d = c_id c) cs \<noteq> None \<Longrightarrow>
     find (\<lambda>d. c_id d = c_id c) (replaceConversation c cs) = Some c"
  by (induction cs) auto

lemma find_replaceConversation_other:
  "i \<noteq> c_id c \<Longrightarrow>
     find (\<lambda>d. c_id d = i) (replaceConversation c cs) = find (\<lambda>d. c_id d = i) cs"
  by (induction cs) auto

lemma find_updateConversationById:
  "(\<And>d. c_id (f d) = c_id d) \<Longrightarrow>
     find (\<lambda>d. c_id d = i) (updateConversationById j f cs)
       = (if i = j then map_option f (find (\<lambda>d. c_id d = i) cs) else find (\<lambda>d. c_id d = i) cs)"
  by (induction cs) auto

lemma findConversationById_id:
  "findConversationById s i = Some c \<Longrightarrow> c_id c = i"
  by (auto simp: findConversationById_def find_Some_iff)

lemma saveMessage_clock: "saveMessage s m = Some s1 \<Longrightarrow> clock s1 = clock s"
  by (auto simp: saveMessage_def postSave_def Let_def split: if_splits)

lemma saveMessage_conv_exists:
  "saveMessage s m = Some s1 \<Longrightarrow>
     findConversationById s1 i \<noteq> None \<longleftrightarrow> findConversationById s i \<noteq> None"
  by (auto simp: saveMessage_def Let_def findConversationById_def postSave_def
        find_updateConversationById split: if_splits)

lemma findConversationById_save:
  "findConversationById s (c_id c) \<noteq> None \<Longrightarrow>
     findConversationById (saveConversation s c) (c_id c) = Some c"
  by (simp add: findConversationById_def saveConversation_def find_replaceConversation)

subsection \<open>Marking messages read\<close>

lemma markConversationAsRead_read:
  assumes "m \<in> set (messages (markConversationAsRead s cid uid))"
    and "conversationId m = cid" and "senderId m \<noteq> uid"
  shows "isRead m"
proof -
  from assms(1) obtain x where x: "x \<in> set (messages s)"
    and m: "m = (if conversationId x = cid \<and> senderId x \<noteq> uid \<and> isRead x = False
                 then x\<lparr>isRead := True, readAt := Some (clock s)\<rparr> else x)"
    by (auto simp: markConversationAsRead_def)
  define c where "c \<longleftrightarrow> conversationId x = cid \<and> senderId x \<noteq> uid \<and> isRead x = False"
  have m': "m = (if c then x\<lparr>isRead := True, readAt := Some (clock s)\<rparr> else x)"
    using m by (simp add: c_def)
  show ?thesis
  proof (cases c)
    case True
    then show ?thesis using m' by simp
  next
    case False
    then have "m = x" using m' by simp
    with assms(2,3) False show ?thesis by (simp add: c_def)
  qed
qed

subsection \<open>The unread aggregate\<close>

lemma matchUnread_iff:
  "matchUnread s uid m \<longleftrightarrow>
     (\<exists>c \<in> set (conversations s). c_id c = conversationId m \<and> hasParticipant c uid)
     \<and> senderId m \<noteq> uid \<and> \<not> isRead m"
  by (auto simp: matchUnread_def lookupConversation_def list_ex_iff hasParticipant_def)

lemma groupTotal_Nil: "groupTotal (groupByConversation []) = []"
  by (simp add: groupTotal_def groupByConversation_def)

subsection \<open>Searching\<close>

lemma plainQuery_no_dot: "plainQuery q \<Longrightarrow> dot \<notin> set q"
  by (auto simp: plainQuery_def list_all_iff regexMetachar_def js_def dot_def)

lemma matchHere_plain:
  "dot \<notin> set p \<Longrightarrow> matchHere p t = prefix (lower p) (lower t)"
  by (induction p t rule: matchHere.induct) (auto simp: lower_def)

lemma matchAnywhere_plain:
  "dot \<notin> set p \<Longrightarrow> matchAnywhere p t = sublist (lower p) (lower t)"
proof (induction t)
  case Nil
  then show ?case by (cases p) (simp_all add: lower_def)
next
  case (Cons c cs)
  then show ?case
    using matchHere_plain [of p "c # cs"] by (simp add: sublist_Cons_right lower_def)
qed

lemma literalDotEngine_plain: "plainQuery q \<Longrightarrow> searchesSubstring literalDotEngine q"
proof -
  assume p: "plainQuery q"
  then have "list_all (\<lambda>c. c = dot \<or> \<not> regexMetachar c) q"
    by (auto simp: plainQuery_def list_all_iff)
  then have "literalDotEngine q = Some (matchAnywhere q)" by (simp add: literalDotEngine_def)
  then show ?thesis using matchAnywhere_plain [OF plainQuery_no_dot [OF p]]
    by (simp add: searchesSubstring_def)
qed

lemma newestFirst_sorted:
  "sorted_wrt (\<lambda>a b. m_createdAt b \<le> m_createdAt a) (newestFirst ms)"
proof -
  have "sorted (map (\<lambda>m. - int (m_createdAt m)) (newestFirst ms))"
    unfolding newestFirst_def by (rule sorted_sort_key)
  then show ?thesis by (simp add: sorted_map)
qed

lemma set_newestFirst: "set (newestFirst ms) = set ms"
  by (simp add: newestFirst_def)

subsection \<open>The invariant of the conversations\<close>

lemma later_refl: "later s s"
  by (simp add: later_def)

lemma later_trans: "later s s1 \<Longrightarrow> later s1 s2 \<Longrightarrow> later s s2"
  unfolding later_def by (metis (no_types, lifting) le_trans less_le_trans)

lemma length_updateConversationById: "length (updateConversationById i f cs) = length cs"
  by (induction cs) auto

lemma nth_updateConversationById:
  "k < length cs \<Longrightarrow>
     updateConversationById i f cs ! k = cs ! k
     \<or> (updateConversationById i f cs ! k = f (cs ! k)
        \<and> find (\<lambda>d. c_id d = i) cs = Some (cs ! k))"
proof (induction cs arbitrary: k)
  case Nil
  then show ?case by simp
next
  case (Cons d ds)
  show ?case
  proof (cases k)
    case 0
    then show ?thesis by simp
  next
    case (Suc j)
    with Cons.prems have "j < length ds" by simp
    from Cons.IH [OF this] show ?thesis using Suc by auto
  qed
qed

lemma replaceConversation_update:
  "replaceConversation c cs = updateConversationById (c_id c) (\<lambda>d. c) cs"
  by (induction cs) auto

text \<open>Rewriting one document keeps the invariant and moves no date back.\<close>

lemma update_keeps:
  assumes inv: "invariant s"
    and f: "\<And>d. find (\<lambda>d. c_id d = i) (conversations s) = Some d \<Longrightarrow> wellFormed d \<Longrightarrow>
              timestamp d \<le> clock s \<Longrightarrow>
              c_id (f d) = c_id d \<and> wellFormed (f d) \<and> timestamp d \<le> timestamp (f d)
              \<and> timestamp (f d) \<le> clock s"
    and s': "conversations s' = updateConversationById i f (conversations s)"
    and clk: "clock s' = clock s"
  shows "invariant s' \<and> later s s'"
proof -
  let ?cs = "conversations s"
  let ?cs' = "updateConversationById i f ?cs"
  have point: "\<And>k. k < length ?cs \<Longrightarrow>
      c_id (?cs' ! k) = c_id (?cs ! k) \<and> wellFormed (?cs' ! k)
      \<and> timestamp (?cs ! k) \<le> timestamp (?cs' ! k) \<and> timestamp (?cs' ! k) \<le> clock s"
  proof -
    fix k assume k: "k < length ?cs"
    then have ok: "wellFormed (?cs ! k)" "timestamp (?cs ! k) \<le> clock s"
      using inv by (simp_all add: invariant_def list_all_length)
    from nth_updateConversationById [OF k, of i f]
    show "c_id (?cs' ! k) = c_id (?cs ! k) \<and> wellFormed (?cs' ! k)
      \<and> timestamp (?cs ! k) \<le> timestamp (?cs' ! k) \<and> timestamp (?cs' ! k) \<le> clock s"
    proof
      assume "?cs' ! k = ?cs ! k"
      then show ?thesis using ok by simp
    next
      assume "?cs' ! k = f (?cs ! k) \<and> find (\<lambda>d. c_id d = i) ?cs = Some (?cs ! k)"
      then show ?thesis using f [of "?cs ! k"] ok by simp
    qed
  qed
  have "invariant s'"
    using point by (simp add: invariant_def list_all_length s' clk length_updateConversationById)
  moreover have "later s s'"
    using point by (simp add: later_def s' clk length_updateConversationById)
  ultimately show ?thesis ..
qed

lemma bumpUnread_keeps:
  assumes "\<forall>k \<in> K. \<exists>n. map_of uc k = Some n \<and> 0 \<le> n" and "IdText (userId p) \<in> K"
  shows "\<forall>k \<in> K. \<exists>n. map_of (bumpUnread sender p uc) k = Some n \<and> 0 \<le> n"
proof
  fix k assume k: "k \<in> K"
  from assms(1) k obtain n where n: "map_of uc k = Some n" "0 \<le> n" by blast
  from assms obtain n' where n': "map_of uc (IdText (userId p)) = Some n'" "0 \<le> n'" by blast
  show "\<exists>n. map_of (bumpUnread sender p uc) k = Some n \<and> 0 \<le> n"
    using n n' by (simp add: bumpUnread_def Let_def map_of_update_alist getCount_def)
qed

lemma fold_bumpUnread_keeps:
  "(\<lambda>p. IdText (userId p)) ` set ps \<subseteq> K \<Longrightarrow>
     \<forall>k \<in> K. \<exists>n. map_of uc k = Some n \<and> 0 \<le> n \<Longrightarrow>
     \<forall>k \<in> K. \<exists>n. map_of (fold (bumpUnread sender) ps uc) k = Some n \<and> 0 \<le> n"
proof (induction ps arbitrary: uc)
  case Nil
  then show ?case by simp
next
  case (Cons p ps)
  from Cons.prems have "IdText (userId p) \<in> K" "(\<lambda>p. IdText (userId p)) ` set ps \<subseteq> K"
    by auto
  with Cons.IH [of "bumpUnread sender p uc"] bumpUnread_keeps [OF Cons.prems(2)]
  show ?case by simp
qed

lemma wellFormed_iff:
  "wellFormed c \<longleftrightarrow> length (participants c) = 2
     \<and> (\<forall>k \<in> (\<lambda>p. IdText (userId p)) ` set (participants c).
           \<exists>n. map_of (unreadCount c) k = Some n \<and> 0 \<le> n)"
  by (auto simp: wellFormed_def list_all_iff split: option.splits)

lemma wellFormed_updateLastMessage:
  "wellFormed c \<Longrightarrow> wellFormed (updateLastMessage now c text sender)"
  unfolding wellFormed_iff
  using fold_bumpUnread_keeps [of "participants c"
          "(\<lambda>p. IdText (userId p)) ` set (participants c)" "unreadCount c" sender]
  by (simp add: updateLastMessage_def)

lemma wellFormed_markAsRead: "wellFormed c \<Longrightarrow> wellFormed (markAsRead c uid)"
  unfolding wellFormed_iff by (simp add: markAsRead_def map_of_update_alist)

lemma invariant_found:
  "invariant s \<Longrightarrow> findConversationById s cid = Some conv \<Longrightarrow> wellFormed conv"
  by (auto simp: invariant_def list_all_iff findConversationById_def find_Some_iff)

lemma invariant_between:
  "invariant s \<Longrightarrow> findBetweenUsers s a b = Some conv \<Longrightarrow> wellFormed conv"
  by (auto simp: invariant_def list_all_iff findBetweenUsers_def find_Some_iff)

lemma saveMessage_keeps:
  assumes sv: "saveMessage s m = Some s1" and new: "m_createdAt m = clock s" and inv: "invariant s"
  shows "invariant s1 \<and> later s s1"
proof (rule update_keeps [OF inv])
  show "conversations s1 = updateConversationById (conversationId m)
          (\<lambda>c. c\<lparr>lastMessage := \<lparr>lm_content = content m, lm_senderId = Some (senderId m),
                                  lm_timestamp = m_createdAt m\<rparr>\<rparr>) (conversations s)"
    using sv by (auto simp: saveMessage_def postSave_def Let_def split: if_splits)
  show "clock s1 = clock s" using sv by (rule saveMessage_clock)
next
  fix d assume "wellFormed d" "timestamp d \<le> clock s"
  then show "c_id (d\<lparr>lastMessage := \<lparr>lm_content = content m, lm_senderId = Some (senderId m),
                                  lm_timestamp = m_createdAt m\<rparr>\<rparr>) = c_id d
     \<and> wellFormed (d\<lparr>lastMessage := \<lparr>lm_content = content m, lm_senderId = Some (senderId m),
                                  lm_timestamp = m_createdAt m\<rparr>\<rparr>)
     \<and> timestamp d \<le> timestamp (d\<lparr>lastMessage := \<lparr>lm_content = content m,
                                  lm_senderId = Some (senderId m), lm_timestamp = m_createdAt m\<rparr>\<rparr>)
     \<and> timestamp (d\<lparr>lastMessage := \<lparr>lm_content = content m,
                                  lm_senderId = Some (senderId m), lm_timestamp = m_createdAt m\<rparr>\<rparr>)
         \<le> clock s"
    by (simp add: wellFormed_def timestamp_def new)
qed

lemma updateLastMessage_keeps:
  assumes inv: "invariant s" and wf: "wellFormed conv"
  shows "invariant (saveConversation s (updateLastMessage (clock s) conv text sender))
       \<and> later s (saveConversation s (updateLastMessage (clock s) conv text sender))"
proof (rule update_keeps [OF inv])
  let ?c = "updateLastMessage (clock s) conv text sender"
  show "conversations (saveConversation s ?c)
          = updateConversationById (c_id ?c) (\<lambda>d. ?c) (conversations s)"
    by (simp add: saveConversation_def replaceConversation_update)
  show "clock (saveConversation s ?c) = clock s" by (simp add: saveConversation_def)
  fix d assume "find (\<lambda>d. c_id d = c_id ?c) (conversations s) = Some d"
    and "timestamp d \<le> clock s"
  then show "c_id ?c = c_id d \<and> wellFormed ?c \<and> timestamp d \<le> timestamp ?c
               \<and> timestamp ?c \<le> clock s"
    using wellFormed_updateLastMessage [OF wf]
    by (auto simp: find_Some_iff timestamp_def updateLastMessage_def)
qed

lemma markAsRead_keeps:
  assumes inv: "invariant s" and conv: "findConversationById s cid = Some conv"
  shows "invariant (saveConversation s (markAsRead conv uid))
       \<and> later s (saveConversation s (markAsRead conv uid))"
proof (rule update_keeps [OF inv])
  let ?c = "markAsRead conv uid"
  have id: "c_id ?c = cid" using conv by (simp add: markAsRead_def findConversationById_id)
  show "conversations (saveConversation s ?c)
          = updateConversationById (c_id ?c) (\<lambda>d. ?c) (conversations s)"
    by (simp add: saveConversation_def replaceConversation_update)
  show "clock (saveConversation s ?c) = clock s" by (simp add: saveConversation_def)
  fix d assume "find (\<lambda>d. c_id d = c_id ?c) (conversations s) = Some d"
    and ts: "timestamp d \<le> clock s"
  then have "d = conv" using conv id by (simp add: findConversationById_def)
  then show "c_id ?c = c_id d \<and> wellFormed ?c \<and> timestamp d \<le> timestamp ?c
               \<and> timestamp ?c \<le> clock s"
    using wellFormed_markAsRead [OF invariant_found [OF inv conv]] ts
    by (simp add: markAsRead_def timestamp_def)
qed

lemma wellFormed_cong:
  "participants c' = participants c \<Longrightarrow>
     (\<And>i. map_of (unreadCount c') (IdText i) = map_of (unreadCount c) (IdText i)) \<Longrightarrow>
     wellFormed c' = wellFormed c"
  by (simp add: wellFormed_def)

lemma updateLastMessagePopulated_doc:
  assumes "updateLastMessagePopulated now pc text sender = Some pc'"
  shows "c_id (doc pc') = c_id (doc pc) \<and> participants (doc pc') = participants (doc pc)
       \<and> isActive (doc pc') = isActive (doc pc)
       \<and> lastMessage (doc pc') = \<lparr>lm_content = take 100 text, lm_senderId = Some sender,
                                      lm_timestamp = now\<rparr>
       \<and> (\<forall>i. map_of (unreadCount (doc pc')) (IdText i)
                = map_of (unreadCount (doc pc)) (IdText i))"
proof -
  from assms obtain uc where f: "forEachPopulated sender (populatedUsers pc) (unreadCount (doc pc)) = Some uc"
    and pc': "pc' = pc\<lparr>doc := (doc pc)\<lparr>lastMessage := \<lparr>lm_content = take 100 text,
                                                     lm_senderId = Some sender,
                                                     lm_timestamp = now\<rparr>,
                                     unreadCount := uc\<rparr>\<rparr>"
    by (auto simp: updateLastMessagePopulated_def split: option.splits)
  show ?thesis using forEachPopulated_id [OF f] by (simp add: pc')
qed

lemma updateLastMessagePopulated_keeps:
  assumes inv: "invariant s" and wf: "wellFormed (doc pc)"
    and up: "updateLastMessagePopulated (clock s) pc text sender = Some pc'"
  shows "invariant (saveConversation s (doc pc')) \<and> later s (saveConversation s (doc pc'))"
proof (rule update_keeps [OF inv])
  note d = updateLastMessagePopulated_doc [OF up]
  have wf': "wellFormed (doc pc')"
    using wf wellFormed_cong [of "doc pc'" "doc pc"] d by simp
  show "conversations (saveConversation s (doc pc'))
          = updateConversationById (c_id (doc pc')) (\<lambda>d. doc pc') (conversations s)"
    by (simp add: saveConversation_def replaceConversation_update)
  show "clock (saveConversation s (doc pc')) = clock s" by (simp add: saveConversation_def)
  fix d' assume "find (\<lambda>d. c_id d = c_id (doc pc')) (conversations s) = Some d'"
    and "timestamp d' \<le> clock s"
  then show "c_id (doc pc') = c_id d' \<and> wellFormed (doc pc') \<and> timestamp d' \<le> timestamp (doc pc')
               \<and> timestamp (doc pc') \<le> clock s"
    using wf' d by (auto simp: find_Some_iff timestamp_def)
qed

lemma createConversation_keeps:
  assumes inv: "invariant s" and cr: "createConversation s a b sid t = (s1, conv)"
  shows "invariant s1 \<and> later s s1 \<and> wellFormed conv"
proof -
  have wf: "wellFormed conv"
    using cr by (auto simp: createConversation_def Let_def wellFormed_def map_of_update_alist)
  have ts: "timestamp conv = clock s"
    using cr by (auto simp: createConversation_def Let_def timestamp_def)
  have cs: "conversations s1 = conversations s @ [conv]" and clk: "clock s1 = clock s"
    using cr by (auto simp: createConversation_def Let_def)
  have "invariant s1" using inv wf ts by (simp add: invariant_def cs clk)
  moreover have "later s s1" by (simp add: later_def cs clk nth_append)
  ultimately show ?thesis using wf by simp
qed

lemma markConversationAsRead_keeps:
  "invariant s \<Longrightarrow>
     invariant (markConversationAsRead s cid uid) \<and> later s (markConversationAsRead s cid uid)"
  by (simp add: invariant_def later_def markConversationAsRead_def)

lemma tick_keeps: "invariant s \<Longrightarrow> invariant (tick d s) \<and> later s (tick d s)"
  by (auto simp: invariant_def later_def tick_def list_all_iff)

lemma newMessage_createdAt:
  "m_createdAt (newMessage s cid sender name text mtype atts reply) = clock s"
  by (simp add: newMessage_def)

lemma appended_keeps:
  assumes inv: "invariant s" and wf: "wellFormed conv"
    and sv: "saveMessage s (newMessage s cid sender name text mtype atts reply) = Some s1"
  shows "invariant (saveConversation s1 (updateLastMessage (clock s1) conv text' sender'))
       \<and> later s (saveConversation s1 (updateLastMessage (clock s1) conv text' sender'))"
proof -
  from saveMessage_keeps [OF sv newMessage_createdAt inv]
  have 1: "invariant s1" "later s s1" by simp_all
  from updateLastMessage_keeps [OF 1(1) wf]
  have 2: "invariant (saveConversation s1 (updateLastMessage (clock s1) conv text' sender'))"
    "later s1 (saveConversation s1 (updateLastMessage (clock s1) conv text' sender'))"
    by simp_all
  from 2(1) later_trans [OF 1(2) 2(2)] show ?thesis ..
qed

lemma sendInitialMessage_keeps:
  assumes inv: "invariant s" and wf: "wellFormed conv"
  shows "invariant (snd (sendInitialMessage s u conv text))
       \<and> later s (snd (sendInitialMessage s u conv text))"
proof (cases "saveMessage s (newMessage s (c_id conv) (u_id u) (fullName u) text (js ''text'') [] None)")
  case None
  then show ?thesis using inv by (simp add: sendInitialMessage_def Let_def later_refl)
next
  case (Some s1)
  from appended_keeps [OF inv wf Some] Some show ?thesis
    by (simp add: sendInitialMessage_def Let_def)
qed

lemma sendInitialMessagePopulated_keeps:
  assumes inv: "invariant s" and wf: "wellFormed (doc pc)"
  shows "invariant (snd (sendInitialMessagePopulated s u pc text))
       \<and> later s (snd (sendInitialMessagePopulated s u pc text))"
proof (cases "saveMessage s (newMessage s (c_id (doc pc)) (u_id u) (fullName u) text (js ''text'') [] None)")
  case None
  then show ?thesis using inv by (simp add: sendInitialMessagePopulated_def Let_def later_refl)
next
  case (Some s1)
  from saveMessage_keeps [OF Some newMessage_createdAt inv]
  have 1: "invariant s1" "later s s1" by simp_all
  show ?thesis
  proof (cases "updateLastMessagePopulated (clock s1) pc text (u_id u)")
    case None
    then show ?thesis using Some 1 by (simp add: sendInitialMessagePopulated_def Let_def)
  next
    case (Some pc')
    from updateLastMessagePopulated_keeps [OF 1(1) wf Some]
    have 2: "invariant (saveConversation s1 (doc pc'))" "later s1 (saveConversation s1 (doc pc'))"
      by simp_all
    from 2(1) later_trans [OF 1(2) 2(2)] show ?thesis
      using \<open>saveMessage s (newMessage s (c_id (doc pc)) (u_id u) (fullName u) text (js ''text'') [] None) = Some s1\<close> Some
      by (simp add: sendInitialMessagePopulated_def Let_def)
  qed
qed

lemma sendMessage_keeps:
  assumes inv: "invariant s"
  shows "invariant (snd (sendMessage s u cidp b)) \<and> later s (snd (sendMessage s u cidp b))"
proof (cases "sendMessage s u cidp b")
  case (Pair r s')
  show ?thesis
  proof (cases "s' = s")
    case True
    then show ?thesis using Pair inv by (simp add: later_refl)
  next
    case False
    with Pair obtain s1 cid reply conv where
      conv: "findConversationById s cid = Some conv"
      and s1: "saveMessage s (newMessage s cid (u_id u) (fullName u) (trim (b_content b))
              (case b_messageType b of None \<Rightarrow> js ''text'' | Some t \<Rightarrow> t) (b_attachments b) reply) = Some s1"
      and s': "s' = saveConversation s1
                    (updateLastMessage (clock s1) conv (trim (b_content b)) (u_id u))"
      by (auto simp: sendMessage_def Let_def split: if_splits option.splits id_text.splits)
    from appended_keeps [OF inv invariant_found [OF inv conv] s1] show ?thesis
      using Pair s' by simp
  qed
qed

lemma getOrCreateConversation_keeps:
  assumes inv: "invariant s"
  shows "invariant (snd (getOrCreateConversation s u b))
       \<and> later s (snd (getOrCreateConversation s u b))"
proof -
  have found: "\<And>conv. wellFormed conv \<Longrightarrow>
      invariant (snd (sendInitialMessagePopulated s u (populate s conv) (trim (initialMessage b))))
      \<and> later s (snd (sendInitialMessagePopulated s u (populate s conv)
                         (trim (initialMessage b))))"
    using sendInitialMessagePopulated_keeps [OF inv] by (simp add: populate_def)
  have created: "\<And>a sid t.
      invariant (snd (case createConversation s u a sid t of
                        (s1, conv) \<Rightarrow> sendInitialMessage s1 u conv (trim (initialMessage b))))
      \<and> later s (snd (case createConversation s u a sid t of
                        (s1, conv) \<Rightarrow> sendInitialMessage s1 u conv (trim (initialMessage b))))"
  proof -
    fix a sid t
    obtain s1 conv where cr: "createConversation s u a sid t = (s1, conv)" by force
    from createConversation_keeps [OF inv cr]
    have 1: "invariant s1" "later s s1" "wellFormed conv" by simp_all
    from sendInitialMessage_keeps [OF 1(1) 1(3)] later_trans [OF 1(2)]
    show "invariant (snd (case createConversation s u a sid t of
                        (s1, conv) \<Rightarrow> sendInitialMessage s1 u conv (trim (initialMessage b))))
      \<and> later s (snd (case createConversation s u a sid t of
                        (s1, conv) \<Rightarrow> sendInitialMessage s1 u conv (trim (initialMessage b))))"
      by (simp add: cr)
  qed
  show ?thesis
    using inv found created invariant_between [OF inv]
    by (simp add: getOrCreateConversation_def Let_def later_refl
             split: option.splits id_text.splits)
qed

lemma openConversation_refuses:
  "findConversationById s cid = Some conv \<Longrightarrow> isActive conv \<Longrightarrow>
     openConversation s u (ObjectId cid) = (Inl AccessDenied, s)"
  by (simp add: openConversation_def populate_def hasParticipantPopulated_never)

lemma openConversation_unchanged: "snd (openConversation s u cidp) = s"
  by (simp add: openConversation_def hasParticipantPopulated_never split: option.splits)

lemma openConversation_keeps:
  assumes inv: "invariant s"
  shows "invariant (snd (openConversation s u cidp)) \<and> later s (snd (openConversation s u cidp))"
  using inv by (simp add: openConversation_unchanged later_refl)

lemma markConversationRead_keeps:
  assumes inv: "invariant s"
  shows "invariant (snd (markConversationRead s u cidp))
       \<and> later s (snd (markConversationRead s u cidp))"
proof -
  have "\<And>cid conv. findConversationById s cid = Some conv \<Longrightarrow>
      invariant (markConversationAsRead (saveConversation s (markAsRead conv (u_id u))) cid (u_id u))
      \<and> later s (markConversationAsRead (saveConversation s (markAsRead conv (u_id u))) cid (u_id u))"
  proof -
    fix cid conv assume c: "findConversationById s cid = Some conv"
    from markAsRead_keeps [OF inv c, of "u_id u"]
    have 1: "invariant (saveConversation s (markAsRead conv (u_id u)))"
      "later s (saveConversation s (markAsRead conv (u_id u)))" by simp_all
    from markConversationAsRead_keeps [OF 1(1), of cid "u_id u"] later_trans [OF 1(2)]
    show "invariant (markConversationAsRead (saveConversation s (markAsRead conv (u_id u))) cid (u_id u))
      \<and> later s (markConversationAsRead (saveConversation s (markAsRead conv (u_id u))) cid (u_id u))"
      by blast
  qed
  then show ?thesis using inv
    by (simp add: markConversationRead_def Let_def later_refl split: option.splits id_text.splits)
qed

lemma listMessages_keeps:
  assumes inv: "invariant s"
  shows "invariant (snd (listMessages s u cidp pageq limitq))
       \<and> later s (snd (listMessages s u cidp pageq limitq))"
  using inv markConversationAsRead_keeps [OF inv]
  by (simp add: listMessages_def Let_def later_refl split: option.splits id_text.splits)

lemma step_keeps: "step s s' \<Longrightarrow> invariant s \<Longrightarrow> invariant s' \<and> later s s'"
proof (induction rule: step.induct)
  case (Tick s d) then show ?case by (rule tick_keeps)
next
  case (Create s u cb) then show ?case by (rule getOrCreateConversation_keeps)
next
  case (Send s u cidp b) then show ?case by (rule sendMessage_keeps)
next
  case (Open s u cidp) then show ?case by (rule openConversation_keeps)
next
  case (List s u cidp pageq limitq) then show ?case by (rule listMessages_keeps)
next
  case (Read s u cidp) then show ?case by (rule markConversationRead_keeps)
qed

lemma reachable_invariant: "reachable s \<Longrightarrow> invariant s"
proof (induction rule: reachable.induct)
  case (Init s)
  then show ?case by (simp add: invariant_def)
next
  case (Step s s')
  then show ?case using step_keeps by blast
qed

subsection \<open>The content of the stored messages\<close>

lemma set_replaceMessage: "set (replaceMessage m ms) \<subseteq> insert m (set ms)"
  by (induction ms) auto

lemma saveMessage_messages:
  "saveMessage s m = Some s' \<Longrightarrow> set (messages s') \<subseteq> insert m (set (messages s))"
  using set_replaceMessage [of m "messages s"]
  by (auto simp: saveMessage_def postSave_def Let_def split: if_splits)

lemma saveMessage_valid: "saveMessage s m = Some s' \<Longrightarrow> validMessage m"
  by (auto simp: saveMessage_def split: if_splits)

lemma saveMessage_invalid: "\<not> validMessage m \<Longrightarrow> saveMessage s m = None"
  by (simp add: saveMessage_def)





lemma isLengthCount_Nil: "isLengthCount [] = 0"
  by (simp add: isLengthCount_def)

lemma textErrors_Nil:
  "textErrors f v = [] \<longleftrightarrow> 1 \<le> isLengthCount v \<and> isLengthCount v \<le> 1000"
  by (cases "v = []") (auto simp: textErrors_def isLengthCount_Nil)



lemma long_not_valid:
  "1000 < length (trim text) \<Longrightarrow>
     \<not> validMessage (newMessage s0 cid sender name (trim text) mtype atts reply)"
  by (simp add: validMessage_def newMessage_def trim_trim)









text \<open>
  \<open>editContent\<close> is called by no route. It goes through \<open>save()\<close>, whose validators count
  the code units of the content: the edited content has from 1 to 1000 of them.
\<close>

lemma editContent_length:
  assumes e: "editContent s m new = Some s'"
    and ok: "list_all (\<lambda>m. 1 \<le> length (content m) \<and> length (content m) \<le> 1000) (messages s)"
  shows "list_all (\<lambda>m. 1 \<le> length (content m) \<and> length (content m) \<le> 1000) (messages s')"
proof -
  let ?m = "m\<lparr>content := trim new, isEdited := True, editedAt := Some (clock s)\<rparr>"
  from e have sv: "saveMessage s ?m = Some s'" by (simp add: editContent_def)
  from saveMessage_valid [OF sv] have "trim new \<noteq> []" "length (trim new) \<le> 1000"
    by (simp_all add: validMessage_def)
  moreover from this(1) have "1 \<le> length (trim new)" by (cases "trim new") simp_all
  ultimately have "1 \<le> length (content ?m) \<and> length (content ?m) \<le> 1000" by simp
  with saveMessage_messages [OF sv] ok show ?thesis
    by (auto simp: list_all_iff)
qed


lemma sendInitialMessage_long:
  "1000 < length (trim text) \<Longrightarrow> sendInitialMessage s u conv (trim text) = (Inl ServerError, s)"
  by (simp add: sendInitialMessage_def Let_def saveMessage_invalid long_not_valid)





subsection \<open>The summary written on a populated document\<close>

text \<open>
  When \<open>POST /conversations\<close> finds the conversation, \<open>updateLastMessage\<close> runs on the
  populated document: it throws when the text of a participant's document has a dot, and
  otherwise leaves the counter of every identifier as it was.
\<close>

lemma forEachPopulated_dot:
  "p \<in> set ps \<Longrightarrow> hasDot (InspectText p) \<Longrightarrow> forEachPopulated sender ps uc = None"
proof (induction ps arbitrary: uc)
  case Nil
  then show ?case by simp
next
  case (Cons q qs)
  show ?case
  proof (cases "bumpUnreadPopulated sender q uc")
    case None
    then show ?thesis by simp
  next
    case (Some uc')
    then have "\<not> hasDot (InspectText q)"
      by (auto simp: bumpUnreadPopulated_def Let_def split: if_splits)
    with Cons.prems have "p \<in> set qs" by auto
    from Cons.IH [OF this Cons.prems(2)] Some show ?thesis by simp
  qed
qed

lemma sendInitialMessagePopulated_dot:
  assumes "p \<in> set (populatedUsers pc)" and "hasDot (InspectText p)"
  shows "fst (sendInitialMessagePopulated s u pc text) = Inl ServerError"
  using forEachPopulated_dot [OF assms]
  by (simp add: sendInitialMessagePopulated_def updateLastMessagePopulated_def Let_def
        split: option.splits)

lemma sendInitialMessagePopulated_counters:
  assumes sent: "sendInitialMessagePopulated s u pc text = (Inr i, s')"
    and stored: "findConversationById s (c_id (doc pc)) \<noteq> None"
  shows "\<exists>conv'. findConversationById s' (c_id (doc pc)) = Some conv'
           \<and> (\<forall>k. map_of (unreadCount conv') (IdText k)
                    = map_of (unreadCount (doc pc)) (IdText k))"
proof -
  from sent obtain s1 pc' where
    s1: "saveMessage s (newMessage s (c_id (doc pc)) (u_id u) (fullName u) text (js ''text'') [] None)
           = Some s1"
    and up: "updateLastMessagePopulated (clock s1) pc text (u_id u) = Some pc'"
    and s': "s' = saveConversation s1 (doc pc')"
    by (auto simp: sendInitialMessagePopulated_def Let_def split: option.splits)
  note d = updateLastMessagePopulated_doc [OF up]
  have "findConversationById s1 (c_id (doc pc)) \<noteq> None"
    using saveMessage_conv_exists [OF s1] stored by simp
  then have "findConversationById s' (c_id (doc pc)) = Some (doc pc')"
    unfolding s' using findConversationById_save [of s1 "doc pc'"] d by simp
  with d show ?thesis by simp
qed

subsection \<open>Finding the conversation of two users\<close>

lemma findBetweenUsers_commute: "findBetweenUsers s a b = findBetweenUsers s b a"
  unfolding findBetweenUsers_def by (rule find_cong) auto

subsection \<open>Further facts about the model\<close>

text \<open>
  The two stages of the aggregation add up to a plain count: \<open>GET /unread-count\<close> answers
  with the number of unread messages that others sent in the conversations of the user.
\<close>

lemma groupByConversation_total:
  "sum_list (map snd (groupByConversation ms)) = int (length ms)"
proof -
  let ?ks = "map conversationId ms"
  have cnt: "\<And>x. length (filter (\<lambda>m. conversationId m = x) ms) = count_list ?ks x"
    by (induction ms) auto
  have "sum_list (map snd (groupByConversation ms))
          = sum_list (map (\<lambda>x. int (count_list ?ks x)) (remdups ?ks))"
    by (simp add: groupByConversation_def comp_def cnt)
  also have "\<dots> = (\<Sum>x \<in> set ?ks. int (count_list ?ks x))"
    by (simp add: sum_list_distinct_conv_sum_set)
  also have "\<dots> = int (\<Sum>x \<in> set ?ks. count_list ?ks x)" by simp
  also have "\<dots> = int (length ?ks)" by (simp add: sum_count_set)
  finally show ?thesis by simp
qed

lemma unreadTotal_counts:
  "unreadTotal s u = (Inr (int (length (filter (matchUnread s (u_id u)) (messages s)))), s)"
proof (cases "filter (matchUnread s (u_id u)) (messages s) = []")
  case True
  then show ?thesis
    by (simp add: unreadTotal_def getUnreadCount_def groupTotal_def groupByConversation_def)
next
  case False
  then have "groupByConversation (filter (matchUnread s (u_id u)) (messages s)) \<noteq> []"
    by (simp add: groupByConversation_def)
  then show ?thesis
    by (simp add: unreadTotal_def getUnreadCount_def groupTotal_def groupByConversation_total)
qed

text \<open>
  The first message of \<open>POST /conversations\<close> updates the conversation as a message sent
  to \<open>POST /conversations/:conversationId/messages\<close> does.
\<close>

lemma sendInitialMessage_updates_conversation:
  assumes sent: "sendInitialMessage s u conv text = (Inr i, s')"
    and stored: "findConversationById s (c_id conv) \<noteq> None"
    and dist: "distinct (map userId (participants conv))"
  shows "\<exists>conv'. findConversationById s' (c_id conv) = Some conv'
           \<and> lastMessage conv' = \<lparr>lm_content = take 100 text,
                                   lm_senderId = Some (u_id u), lm_timestamp = clock s'\<rparr>
           \<and> (\<forall>p \<in> set (participants conv). userId p \<noteq> u_id u \<longrightarrow>
                 map_of (unreadCount conv') (IdText (userId p))
                   = Some (getCount (unreadCount conv) (IdText (userId p)) + 1))
           \<and> map_of (unreadCount conv') (IdText (u_id u))
               = map_of (unreadCount conv) (IdText (u_id u))"
proof -
  from sent obtain s1 where
    s1: "saveMessage s (newMessage s (c_id conv) (u_id u) (fullName u) text (js ''text'') [] None) = Some s1"
    and s': "s' = saveConversation s1 (updateLastMessage (clock s1) conv text (u_id u))"
    by (auto simp: sendInitialMessage_def Let_def split: option.splits)
  let ?c = "updateLastMessage (clock s1) conv text (u_id u)"
  have id: "c_id ?c = c_id conv" by (simp add: updateLastMessage_def)
  have "findConversationById s1 (c_id conv) \<noteq> None"
    using saveMessage_conv_exists [OF s1] stored by simp
  then have found: "findConversationById s' (c_id conv) = Some ?c"
    unfolding s' using findConversationById_save [of s1 ?c] id by simp
  have clk: "clock s' = clock s1" by (simp add: s' saveConversation_def)
  have lm: "lastMessage ?c = \<lparr>lm_content = take 100 text,
                               lm_senderId = Some (u_id u), lm_timestamp = clock s'\<rparr>"
    by (simp add: updateLastMessage_def clk)
  have others: "\<forall>p \<in> set (participants conv). userId p \<noteq> u_id u \<longrightarrow>
                 map_of (unreadCount ?c) (IdText (userId p))
                   = Some (getCount (unreadCount conv) (IdText (userId p)) + 1)"
    using dist by (auto simp: updateLastMessage_def intro!: fold_bumpUnread_other)
  have own: "map_of (unreadCount ?c) (IdText (u_id u))
               = map_of (unreadCount conv) (IdText (u_id u))"
    by (simp add: updateLastMessage_def fold_bumpUnread_sender)
  show ?thesis using found lm others own by blast
qed

text \<open>
  Alice (1) writes "Bonjour" to Bob (2), with whom she has no conversation yet: the new
  conversation has this last message, and 1 unread message for Bob, none for Alice.
\<close>

lemma first_message_scenario:
  "map lastMessage (conversations db_first)
     = [\<lparr>lm_content = js ''Bonjour'', lm_senderId = Some 1, lm_timestamp = 10\<rparr>]
   \<and> map unreadCount (conversations db_first) = [[(IdText 1, 0), (IdText 2, 1)]]
   \<and> map content (messages db_first) = [js ''Bonjour'']"
  by code_simp

text \<open>
  \<open>addParticipant\<close> and \<open>removeParticipant\<close> do not keep a conversation well formed. No
  handler calls them, and they do not save the document: they are not steps of the system.
\<close>

lemma addParticipant_not_wellFormed:
  "wellFormed c \<Longrightarrow> \<not> hasParticipant c uid \<Longrightarrow> \<not> wellFormed (addParticipant c uid name)"
  by (simp add: wellFormed_def addParticipant_def hasParticipant_def Let_def)

lemma removeParticipant_not_wellFormed:
  "wellFormed c \<Longrightarrow> hasParticipant c uid \<Longrightarrow> \<not> wellFormed (removeParticipant c uid)"
proof -
  assume wf: "wellFormed c" and p: "hasParticipant c uid"
  from p have "length (filter (\<lambda>p. userId p \<noteq> uid) (participants c)) < length (participants c)"
    by (auto simp: hasParticipant_def list_ex_iff intro!: length_filter_less)
  then show ?thesis using wf by (simp add: wellFormed_def removeParticipant_def)
qed

text \<open>
  A message sent to \<open>POST /conversations/:conversationId/messages\<close> updates the summary of
  the conversation, read from the store with identifiers as participants: the other
  participants get one more unread message, the entry of the sender stays.
\<close>

lemma sendMessage_summary:
  assumes sent: "sendMessage s u (ObjectId cid) b = (Inr m, s')"
    and conv: "findConversationById s cid = Some conv"
    and dist: "distinct (map userId (participants conv))"
  shows "\<exists>conv'. findConversationById s' cid = Some conv'
           \<and> lastMessage conv' = \<lparr>lm_content = take 100 (content m),
                                   lm_senderId = Some (u_id u), lm_timestamp = clock s'\<rparr>
           \<and> (\<forall>p \<in> set (participants conv). userId p \<noteq> u_id u \<longrightarrow>
                 map_of (unreadCount conv') (IdText (userId p))
                   = Some (getCount (unreadCount conv) (IdText (userId p)) + 1))
           \<and> map_of (unreadCount conv') (IdText (u_id u))
               = map_of (unreadCount conv) (IdText (u_id u))"
proof -
  from sent conv obtain s1 reply where
    m: "m = newMessage s cid (u_id u) (fullName u) (trim (b_content b))
              (case b_messageType b of None \<Rightarrow> js ''text'' | Some t \<Rightarrow> t) (b_attachments b) reply"
    and s1: "saveMessage s m = Some s1"
    and s': "s' = saveConversation s1
                    (updateLastMessage (clock s1) conv (trim (b_content b)) (u_id u))"
    by (auto simp: sendMessage_def Let_def split: if_splits option.splits id_text.splits)
  let ?c = "updateLastMessage (clock s1) conv (trim (b_content b)) (u_id u)"
  have id: "c_id ?c = cid" using conv by (simp add: updateLastMessage_def findConversationById_id)
  have "findConversationById s1 cid \<noteq> None" using saveMessage_conv_exists [OF s1] conv by simp
  then have found: "findConversationById s' cid = Some ?c"
    unfolding s' using findConversationById_save [of s1 ?c] id by simp
  have clk: "clock s' = clock s1" by (simp add: s' saveConversation_def)
  have cont: "content m = trim (b_content b)" by (simp add: m newMessage_def trim_trim)
  have lm: "lastMessage ?c = \<lparr>lm_content = take 100 (content m),
                               lm_senderId = Some (u_id u), lm_timestamp = clock s'\<rparr>"
    by (simp add: updateLastMessage_def cont clk)
  have others: "\<forall>p \<in> set (participants conv). userId p \<noteq> u_id u \<longrightarrow>
                 map_of (unreadCount ?c) (IdText (userId p))
                   = Some (getCount (unreadCount conv) (IdText (userId p)) + 1)"
    using dist by (auto simp: updateLastMessage_def intro!: fold_bumpUnread_other)
  have own: "map_of (unreadCount ?c) (IdText (u_id u))
               = map_of (unreadCount conv) (IdText (u_id u))"
    by (simp add: updateLastMessage_def fold_bumpUnread_sender)
  show ?thesis using found lm others own by blast
qed

subsection \<open>A message of 1000 characters and 1001 code units\<close>

text \<open>
  The validation of the request accepts it and \<open>save()\<close> refuses it: the handler answers
  500, and \<open>POST /conversations\<close> has by then created the conversation, which stays without
  a message.
\<close>

lemma trim_astral_text: "trim astral_text = astral_text"
  by code_simp

lemma isLengthCount_astral_text: "isLengthCount astral_text = 1000"
  by code_simp

lemma length_astral_text: "length astral_text = 1001"
  by (simp add: astral_text_def)

lemma astral_passes_validation:
  "messageValidation body_astral = [] \<and> createValidation body_astral_create = []"
  by (simp add: messageValidation_def createValidation_def body_astral_def
        body_astral_create_def mongoIdErrors_def textErrors_Nil trim_astral_text
        isLengthCount_astral_text)

lemma astral_message_500:
  "sendMessage db0 bob (ObjectId 10) body_astral = (Inl ServerError, db0)"
proof -
  have v: "messageValidation body_astral = []" using astral_passes_validation by simp
  have l: "1000 < length (trim (b_content body_astral))"
    by (simp add: body_astral_def trim_astral_text length_astral_text)
  have f: "findConversationById db0 10 = Some conv_ab" by code_simp
  have h: "hasParticipant conv_ab (u_id bob)" by code_simp
  have r: "b_replyTo body_astral = None" by (simp add: body_astral_def)
  show ?thesis
    by (simp add: sendMessage_def Let_def v f h r saveMessage_invalid long_not_valid [OF l])
qed

lemma astral_first_message_500:
  "getOrCreateConversation db_empty alice body_astral_create
     = (Inl ServerError, fst (createConversation db_empty alice bob None None))
   \<and> length (conversations (fst (createConversation db_empty alice bob None None))) = 1
   \<and> messages (fst (createConversation db_empty alice bob None None)) = []"
proof -
  have v: "createValidation body_astral_create = []" using astral_passes_validation by simp
  have l: "1000 < length (trim (initialMessage body_astral_create))"
    by (simp add: body_astral_create_def trim_astral_text length_astral_text)
  have p: "participantId body_astral_create = Some (ObjectId 2)"
    "cb_serviceId body_astral_create = None" by (simp_all add: body_astral_create_def)
  have u: "u_id alice \<noteq> 2" by (simp add: alice_def)
  have fu: "find (\<lambda>x. u_id x = 2) (users db_empty) = Some bob" by code_simp
  have a: "u_isActive bob" by code_simp
  have fb: "findBetweenUsers db_empty (u_id alice) 2 = None" by code_simp
  have 1: "getOrCreateConversation db_empty alice body_astral_create
     = (Inl ServerError, fst (createConversation db_empty alice bob None None))"
    by (simp add: getOrCreateConversation_def Let_def v p u fu a fb
          sendInitialMessage_long [OF l] split_beta)
  have 2: "length (conversations (fst (createConversation db_empty alice bob None None))) = 1"
    by code_simp
  have 3: "messages (fst (createConversation db_empty alice bob None None)) = []"
    by code_simp
  from 1 2 3 show ?thesis by (intro conjI)
qed

section \<open>Sending a message updates the conversation summary\<close>

text \<open>
  Claim C1 says that every message sent to a conversation sets \<open>lastMessage\<close> and adds 1 to
  the \<open>unreadCount\<close> entry of every participant other than the sender, the entry of the
  sender staying as it was. \<open>POST /conversations\<close> to a user with whom the requester already
  has a conversation sends the message to that conversation and answers 201, but it calls
  \<open>updateLastMessage\<close> on the populated document that \<open>findBetweenUsers\<close> returns. After
  Alice (1) has opened a conversation with Bob (2), whose entry is 1, her second message
  through the same route is stored and becomes the \<open>lastMessage\<close>; the entry of Bob is
  still 1, and the map has two more entries, keyed by the texts of the documents of Alice
  and of Bob, the sender's included.
\<close>

theorem found_conversation_skips_recipient:
  "map_option c_id (findBetweenUsers db_first 1 2) = Some 1
   \<and> map unreadCount (conversations db_first) = [[(IdText 1, 0), (IdText 2, 1)]]
   \<and> createValidation body_encore = []
   \<and> fst (getOrCreateConversation db_first alice body_encore) = Inr 1
   \<and> map (\<lambda>m. (conversationId m, senderId m, content m))
          (messages (snd (getOrCreateConversation db_first alice body_encore)))
        = [(1, 1, js ''Bonjour''), (1, 1, js ''Encore'')]
   \<and> map lastMessage (conversations (snd (getOrCreateConversation db_first alice body_encore)))
        = [\<lparr>lm_content = js ''Encore'', lm_senderId = Some 1, lm_timestamp = 10\<rparr>]
   \<and> map unreadCount (conversations (snd (getOrCreateConversation db_first alice body_encore)))
        = [[(IdText 1, 0), (IdText 2, 1),
            (InspectText (profileOf alice), 1), (InspectText (profileOf bob), 1)]]"
  by code_simp

section \<open>One conversation for two users\<close>

text \<open>
  Claim C2 says that two calls of \<open>POST /conversations\<close> in sequence, for a valid pair of
  distinct active users, yield the same conversation. Alice (1) writes to J.R. (4), an
  active user whose first name has dots. The first call creates the conversation 1 and
  answers 201. The second call, with the same body, finds that conversation, stores the
  message, and then fails: \<open>updateLastMessage\<close> on the populated document sets an
  \<open>unreadCount\<close> key that is the text of the document of J.R., and a Mongoose map refuses a
  key with a dot. The handler answers 500 and no conversation identifier; the second
  message is stored, and the counters are those of the first call.
\<close>

theorem second_call_fails_on_dotted_name:
  "firstName jr = js ''J.R.''
   \<and> createValidation body_jr = []
   \<and> fst (getOrCreateConversation db_empty alice body_jr) = Inr 1
   \<and> db_jr = snd (getOrCreateConversation db_empty alice body_jr)
   \<and> map_option c_id (findBetweenUsers db_jr 1 4) = Some 1
   \<and> fst (getOrCreateConversation db_jr alice body_jr) = Inl ServerError
   \<and> status ServerError = 500
   \<and> map (\<lambda>m. (conversationId m, senderId m))
          (messages (snd (getOrCreateConversation db_jr alice body_jr))) = [(1, 1), (1, 1)]
   \<and> map unreadCount (conversations (snd (getOrCreateConversation db_jr alice body_jr)))
        = [[(IdText 1, 0), (IdText 4, 1)]]"
  by code_simp

section \<open>Marking a conversation read\<close>

text \<open>
  Claim C3. For a participant \<open>u\<close> of a conversation, \<open>PUT /conversations/:conversationId/read\<close>
  succeeds, and afterwards: the counter of \<open>u\<close> in the conversation is 0; the entries of all
  other keys are what they were; every message of the conversation sent by somebody else is
  read; and the messages that \<open>u\<close> sent are the same documents as before, \<open>isRead\<close> and
  \<open>readAt\<close> included.
\<close>

theorem markConversationRead_effect:
  assumes conv: "findConversationById s cid = Some conv"
    and part: "hasParticipant conv (u_id u)"
  shows "\<exists>s' conv'. markConversationRead s u (ObjectId cid) = (Inr (), s')
           \<and> findConversationById s' cid = Some conv'
           \<and> map_of (unreadCount conv') (IdText (u_id u)) = Some 0
           \<and> (\<forall>k. k \<noteq> IdText (u_id u) \<longrightarrow> map_of (unreadCount conv') k = map_of (unreadCount conv) k)
           \<and> (\<forall>m \<in> set (messages s'). conversationId m = cid \<and> senderId m \<noteq> u_id u \<longrightarrow> isRead m)
           \<and> length (messages s') = length (messages s)
           \<and> (\<forall>i < length (messages s). senderId (messages s ! i) = u_id u \<longrightarrow>
                 messages s' ! i = messages s ! i)"
proof -
  let ?c = "markAsRead conv (u_id u)"
  let ?s1 = "saveConversation s ?c"
  let ?s2 = "markConversationAsRead ?s1 cid (u_id u)"
  have run: "markConversationRead s u (ObjectId cid) = (Inr (), ?s2)"
    using conv part by (simp add: markConversationRead_def Let_def)
  have id: "c_id ?c = cid" using conv by (simp add: markAsRead_def findConversationById_id)
  have "findConversationById ?s1 cid = Some ?c"
    using findConversationById_save [of s ?c] conv id by simp
  then have found: "findConversationById ?s2 cid = Some ?c"
    by (simp add: findConversationById_def markConversationAsRead_def)
  have own: "map_of (unreadCount ?c) (IdText (u_id u)) = Some 0"
    by (simp add: markAsRead_def map_of_update_alist)
  have others: "\<forall>k. k \<noteq> IdText (u_id u) \<longrightarrow> map_of (unreadCount ?c) k = map_of (unreadCount conv) k"
    by (simp add: markAsRead_def map_of_update_alist)
  have read: "\<forall>m \<in> set (messages ?s2). conversationId m = cid \<and> senderId m \<noteq> u_id u \<longrightarrow> isRead m"
    using markConversationAsRead_read by blast
  have msgs1: "messages ?s1 = messages s" by (simp add: saveConversation_def)
  have len: "length (messages ?s2) = length (messages s)"
    by (simp add: markConversationAsRead_def msgs1)
  have mine: "\<forall>i < length (messages s). senderId (messages s ! i) = u_id u \<longrightarrow>
                 messages ?s2 ! i = messages s ! i"
    by (simp add: markConversationAsRead_def msgs1)
  show ?thesis
    apply (rule exI [of _ ?s2])
    apply (rule exI [of _ ?c])
    apply (intro conjI)
    apply (rule run)
    apply (rule found)
    apply (rule own)
    apply (rule others)
    apply (rule read)
    apply (rule len)
    apply (rule mine)
    done
qed

theorem markConversationRead_effect_witness:
  "findConversationById db0 10 = Some conv_ab \<and> hasParticipant conv_ab (u_id alice)
   \<and> (\<exists>s' conv'. markConversationRead db0 alice (ObjectId 10) = (Inr (), s')
           \<and> findConversationById s' 10 = Some conv'
           \<and> map_of (unreadCount conv') (IdText (u_id alice)) = Some 0
           \<and> (\<forall>k. k \<noteq> IdText (u_id alice) \<longrightarrow>
                 map_of (unreadCount conv') k = map_of (unreadCount conv_ab) k)
           \<and> (\<forall>m \<in> set (messages s').
                 conversationId m = 10 \<and> senderId m \<noteq> u_id alice \<longrightarrow> isRead m)
           \<and> length (messages s') = length (messages db0)
           \<and> (\<forall>i < length (messages db0). senderId (messages db0 ! i) = u_id alice \<longrightarrow>
                 messages s' ! i = messages db0 ! i))"
proof -
  have c: "findConversationById db0 10 = Some conv_ab" by code_simp
  have p: "hasParticipant conv_ab (u_id alice)" by code_simp
  show ?thesis
    apply (intro conjI)
    apply (rule c)
    apply (rule p)
    apply (rule markConversationRead_effect [OF c p])
    done
qed

section \<open>What somebody outside a conversation is told\<close>

text \<open>
  Claim C4, as stated, asks that every operation on a conversation answer a requester who
  is not one of its participants with the "not found" failure (status 404) and never with
  the "forbidden" one (status 403). \<open>GET /conversations/:conversationId\<close> has a check of
  its own for the participant, after the one for the missing or inactive conversation, and
  answers 403: Carol, who is not in the conversation of Alice and Bob, is told that it
  exists. (The check runs on the populated document, where no identifier is found: a
  participant gets the same answer, see \<open>openConversation_refuses\<close>.)
\<close>

theorem openConversation_outsider_counterexample:
  "findConversationById db0 10 = Some conv_ab \<and> \<not> hasParticipant conv_ab (u_id carol)
   \<and> openConversation db0 carol (ObjectId 10) = (Inl AccessDenied, db0)
   \<and> status AccessDenied = 403 \<and> AccessDenied \<noteq> ConversationNotFound"
  by code_simp


text \<open>
  Claim C4, amended. For a requester who is not a participant of an existing conversation
  every operation on it fails and leaves the database as it was. Listing its messages,
  sending a message to it, marking it read and searching in it fail with "conversation
  not found" (404) when the fields of the request pass validation, and with the validation
  failure otherwise. Opening it fails with "access denied" (403) when the conversation is
  active and with "conversation not found" (404) when it is not.
\<close>

theorem outsider_is_refused:
  assumes conv: "findConversationById s cid = Some conv"
    and out: "\<not> hasParticipant conv (u_id u)"
  shows "openConversation s u (ObjectId cid)
           = (Inl (if isActive conv then AccessDenied else ConversationNotFound), s)
       \<and> listMessages s u (ObjectId cid) pageq limitq
           = (Inl (let errors = intErrors ''page'' 1 None pageq
                                @ intErrors ''limit'' 1 (Some 100) limitq
                   in if errors = [] then ConversationNotFound else InvalidParams errors), s)
       \<and> sendMessage s u (ObjectId cid) b
           = (Inl (if messageValidation b = [] then ConversationNotFound
                   else InvalidData (messageValidation b)), s)
       \<and> markConversationRead s u (ObjectId cid) = (Inl ConversationNotFound, s)
       \<and> searchMessages rx s u q (Some (ObjectId cid))
           = (Inl (if trim q = [] then InvalidParams [(''q'', NotEmpty)]
                   else ConversationNotFound), s)"
proof (intro conjI)
  show "openConversation s u (ObjectId cid)
           = (Inl (if isActive conv then AccessDenied else ConversationNotFound), s)"
    using conv by (simp add: openConversation_def populate_def hasParticipantPopulated_never)
  show "listMessages s u (ObjectId cid) pageq limitq
           = (Inl (let errors = intErrors ''page'' 1 None pageq
                                @ intErrors ''limit'' 1 (Some 100) limitq
                   in if errors = [] then ConversationNotFound else InvalidParams errors), s)"
    using conv out by (simp add: listMessages_def Let_def)
  show "sendMessage s u (ObjectId cid) b
           = (Inl (if messageValidation b = [] then ConversationNotFound
                   else InvalidData (messageValidation b)), s)"
    using conv out by (simp add: sendMessage_def Let_def)
  show "markConversationRead s u (ObjectId cid) = (Inl ConversationNotFound, s)"
    using conv out by (simp add: markConversationRead_def)
  show "searchMessages rx s u q (Some (ObjectId cid))
           = (Inl (if trim q = [] then InvalidParams [(''q'', NotEmpty)]
                   else ConversationNotFound), s)"
    using conv out by (simp add: searchMessages_def searchValidation_def mongoIdErrors_def Let_def)
qed

theorem outsider_is_refused_witness:
  "findConversationById db0 10 = Some conv_ab \<and> \<not> hasParticipant conv_ab (u_id carol)
   \<and> openConversation db0 carol (ObjectId 10)
           = (Inl (if isActive conv_ab then AccessDenied else ConversationNotFound), db0)
   \<and> listMessages db0 carol (ObjectId 10) None None
           = (Inl (let errors = intErrors ''page'' 1 None None
                                @ intErrors ''limit'' 1 (Some 100) None
                   in if errors = [] then ConversationNotFound else InvalidParams errors), db0)
   \<and> sendMessage db0 carol (ObjectId 10) body_merci
           = (Inl (if messageValidation body_merci = [] then ConversationNotFound
                   else InvalidData (messageValidation body_merci)), db0)
   \<and> markConversationRead db0 carol (ObjectId 10) = (Inl ConversationNotFound, db0)
   \<and> searchMessages (\<lambda>p. None) db0 carol (js ''bon'') (Some (ObjectId 10))
           = (Inl (if trim (js ''bon'') = [] then InvalidParams [(''q'', NotEmpty)]
                   else ConversationNotFound), db0)"
proof -
  have c: "findConversationById db0 10 = Some conv_ab" by code_simp
  have p: "\<not> hasParticipant conv_ab (u_id carol)" by code_simp
  show ?thesis
    apply (intro conjI)
    apply (rule c)
    apply (rule p)
    apply (rule outsider_is_refused [OF c p, THEN conjunct1])
    apply (rule outsider_is_refused [OF c p, THEN conjunct2, THEN conjunct1])
    apply (rule outsider_is_refused [OF c p, THEN conjunct2, THEN conjunct2, THEN conjunct1])
    apply (rule outsider_is_refused [OF c p, THEN conjunct2, THEN conjunct2, THEN conjunct2,
                   THEN conjunct1])
    apply (rule outsider_is_refused [OF c p, THEN conjunct2, THEN conjunct2, THEN conjunct2,
                   THEN conjunct2])
    done
qed

section \<open>The invariant of the conversations\<close>

text \<open>
  Claim C5. In every database that the requests of the router build from one without
  conversations (creating a conversation, sending a message, opening a conversation,
  listing its messages, marking it read, with time passing in between), every conversation
  has exactly two participants and its \<open>unreadCount\<close> has, for each of them, an entry that
  is not negative; and no step moves the date of the \<open>lastMessage\<close> of a conversation back:
  after the step the conversation is in its place, with a date that is the same or later.
\<close>

theorem reachable_conversations:
  assumes r: "reachable s"
  shows "(\<forall>c \<in> set (conversations s).
            length (participants c) = 2
            \<and> (\<forall>p \<in> set (participants c).
                  \<exists>n. map_of (unreadCount c) (IdText (userId p)) = Some n \<and> 0 \<le> n))
       \<and> (\<forall>s'. step s s' \<longrightarrow>
            length (conversations s) \<le> length (conversations s')
            \<and> (\<forall>k < length (conversations s).
                  c_id (conversations s' ! k) = c_id (conversations s ! k)
                  \<and> lm_timestamp (lastMessage (conversations s ! k))
                      \<le> lm_timestamp (lastMessage (conversations s' ! k))))"
proof (rule conjI)
  have inv: "invariant s" using r by (rule reachable_invariant)
  show "\<forall>c \<in> set (conversations s).
            length (participants c) = 2
            \<and> (\<forall>p \<in> set (participants c).
                  \<exists>n. map_of (unreadCount c) (IdText (userId p)) = Some n \<and> 0 \<le> n)"
  proof
    fix c assume "c \<in> set (conversations s)"
    with inv have "wellFormed c" by (simp add: invariant_def list_all_iff)
    then show "length (participants c) = 2
            \<and> (\<forall>p \<in> set (participants c).
                  \<exists>n. map_of (unreadCount c) (IdText (userId p)) = Some n \<and> 0 \<le> n)"
      by (simp add: wellFormed_iff)
  qed
  show "\<forall>s'. step s s' \<longrightarrow>
            length (conversations s) \<le> length (conversations s')
            \<and> (\<forall>k < length (conversations s).
                  c_id (conversations s' ! k) = c_id (conversations s ! k)
                  \<and> lm_timestamp (lastMessage (conversations s ! k))
                      \<le> lm_timestamp (lastMessage (conversations s' ! k)))"
  proof (rule allI, rule impI)
    fix s' assume "step s s'"
    then have "later s s'" using step_keeps inv by blast
    then show "length (conversations s) \<le> length (conversations s')
            \<and> (\<forall>k < length (conversations s).
                  c_id (conversations s' ! k) = c_id (conversations s ! k)
                  \<and> lm_timestamp (lastMessage (conversations s ! k))
                      \<le> lm_timestamp (lastMessage (conversations s' ! k)))"
      by (simp add: later_def timestamp_def)
  qed
qed

theorem reachable_conversations_witness:
  "reachable db_first \<and> step db_first db_second \<and> length (conversations db_first) = 1
   \<and> list_all (\<lambda>c. length (participants c) = 2
                     \<and> list_all (\<lambda>p. \<exists>n. map_of (unreadCount c) (IdText (userId p)) = Some n \<and> 0 \<le> n)
                                 (participants c))
               (conversations db_first)
   \<and> length (conversations db_first) \<le> length (conversations db_second)
   \<and> list_all (\<lambda>k. c_id (conversations db_second ! k) = c_id (conversations db_first ! k)
                     \<and> lm_timestamp (lastMessage (conversations db_first ! k))
                         \<le> lm_timestamp (lastMessage (conversations db_second ! k)))
               [0 ..< length (conversations db_first)]"
proof -
  have e: "conversations db_empty = []" by (simp add: db_empty_def)
  have r: "reachable db_first"
    unfolding db_first_def by (rule reachable.Step [OF reachable.Init [OF e] step.Create])
  have st: "step db_first db_second" unfolding db_second_def by (rule step.Send)
  have n: "length (conversations db_first) = 1" by code_simp
  note t = reachable_conversations [OF r]
  note a = t [THEN conjunct1]
  note b = t [THEN conjunct2, rule_format, OF st]
  have a': "list_all (\<lambda>c. length (participants c) = 2
                     \<and> list_all (\<lambda>p. \<exists>n. map_of (unreadCount c) (IdText (userId p)) = Some n \<and> 0 \<le> n)
                                 (participants c))
               (conversations db_first)"
    unfolding list_all_iff by (rule a)
  have b': "list_all (\<lambda>k. c_id (conversations db_second ! k) = c_id (conversations db_first ! k)
                     \<and> lm_timestamp (lastMessage (conversations db_first ! k))
                         \<le> lm_timestamp (lastMessage (conversations db_second ! k)))
               [0 ..< length (conversations db_first)]"
    unfolding list_all_iff using b [THEN conjunct2] by simp
  show ?thesis
    apply (intro conjI)
    apply (rule r)
    apply (rule st)
    apply (rule n)
    apply (rule a')
    apply (rule b [THEN conjunct1])
    apply (rule b')
    done
qed

section \<open>The length of the content of a message\<close>




section \<open>No conversation with oneself\<close>

text \<open>
  Claim C7 says that \<open>POST /conversations\<close> with the requester's own identifier as
  \<open>participantId\<close> fails with the rejection of a conversation with oneself and creates
  nothing. The handler compares the text of \<open>participantId\<close> with
  \<open>req.user._id.toString()\<close>, which is in lower case, while the validation and the cast
  of the queries take the hexadecimal digits in either case. Alice (1) sends her own
  identifier spelled in upper case: the validation passes, the check does not see her, the
  lookup finds her, and with no conversation yet the handler creates one whose two
  participants are Alice, stores the message in it and answers 201. With the canonical
  text the request is refused and the database is left as it was.
\<close>

theorem self_conversation_by_respelling:
  "participantId body_self_upper = Some (Respelled (u_id alice))
   \<and> castId (Respelled (u_id alice)) = Some (u_id alice)
   \<and> createValidation body_self_upper = []
   \<and> fst (getOrCreateConversation db_empty alice body_self_upper) = Inr 1
   \<and> map (\<lambda>c. map userId (participants c))
          (conversations (snd (getOrCreateConversation db_empty alice body_self_upper)))
        = [[1, 1]]
   \<and> map (\<lambda>m. (conversationId m, senderId m))
          (messages (snd (getOrCreateConversation db_empty alice body_self_upper))) = [(1, 1)]
   \<and> getOrCreateConversation db_empty alice body_self = (Inl SelfConversation, db_empty)"
  by code_simp

section \<open>Searching in a conversation\<close>

text \<open>
  Claim C8, as stated, says that every result of \<open>searchInConversation\<close> contains the query
  as a substring, ignoring case. The query goes to the database as a regular expression:
  the query \<open>.\<close> finds both messages of the example conversation, and neither contains a
  dot.
\<close>

theorem searchInConversation_regex_counterexample:
  "searchInConversation literalDotEngine db0 10 (js ''.'') = Some [msg2, msg1]
   \<and> \<not> sublist (lower (js ''.'')) (lower (content msg1))"
proof -
  have run: "searchInConversation literalDotEngine db0 10 (js ''.'') = Some [msg2, msg1]"
    by code_simp
  have nodot: "dot \<notin> set (lower (content msg1))" by code_simp
  have "\<not> sublist (lower (js ''.'')) (lower (content msg1))"
  proof
    assume "sublist (lower (js ''.'')) (lower (content msg1))"
    then have "set (lower (js ''.'')) \<subseteq> set (lower (content msg1))" by (rule set_mono_sublist)
    moreover have "dot \<in> set (lower (js ''.''))" by code_simp
    ultimately show False using nodot by blast
  qed
  with run show ?thesis by (rule conjI)
qed

text \<open>
  Claim C8, amended. For every conversation and every query that the database accepts as
  a regular expression, \<open>searchInConversation\<close> returns at most 10 results (so at most 20),
  newest first, each a message of the conversation whose content matches the query read
  as a regular expression that ignores case. For a query without any character reserved by
  the syntax of regular expressions, on which the engine searches for the query as a
  substring ignoring case, each result contains the query so.
\<close>

theorem searchInConversation_results:
  assumes rx: "rx q = Some matches"
  shows "\<exists>ms. searchInConversation rx s cid q = Some ms
           \<and> length ms \<le> 10
           \<and> sorted_wrt (\<lambda>a b. m_createdAt b \<le> m_createdAt a) ms
           \<and> (\<forall>m \<in> set ms. m \<in> set (messages s) \<and> conversationId m = cid \<and> matches (content m))
           \<and> (plainQuery q \<and> searchesSubstring rx q \<longrightarrow>
                (\<forall>m \<in> set ms. sublist (lower q) (lower (content m))))"
proof -
  let ?hits = "filter (\<lambda>m. conversationId m = cid \<and> matches (content m)) (messages s)"
  let ?ms = "take 10 (newestFirst ?hits)"
  have run: "searchInConversation rx s cid q = Some ?ms"
    using rx by (simp add: searchInConversation_def)
  have len: "length ?ms \<le> 10" by simp
  have srt: "sorted_wrt (\<lambda>a b. m_createdAt b \<le> m_createdAt a) ?ms"
    using newestFirst_sorted by (rule sorted_wrt_take)
  have "set ?ms \<subseteq> set ?hits" using set_take_subset [of 10 "newestFirst ?hits"]
    by (simp add: set_newestFirst)
  moreover have "\<And>m. m \<in> set ?hits \<Longrightarrow>
      m \<in> set (messages s) \<and> conversationId m = cid \<and> matches (content m)"
    by simp
  ultimately have hit: "\<forall>m \<in> set ?ms.
      m \<in> set (messages s) \<and> conversationId m = cid \<and> matches (content m)"
    by blast
  have sub: "plainQuery q \<and> searchesSubstring rx q \<longrightarrow>
                (\<forall>m \<in> set ?ms. sublist (lower q) (lower (content m)))"
  proof (intro impI ballI)
    fix m assume a: "plainQuery q \<and> searchesSubstring rx q" and m: "m \<in> set ?ms"
    from a rx have "\<forall>t. matches t = sublist (lower q) (lower t)"
      by (simp add: searchesSubstring_def)
    moreover from hit m have "matches (content m)" by blast
    ultimately show "sublist (lower q) (lower (content m))" by blast
  qed
  show ?thesis
    apply (rule exI [of _ ?ms])
    apply (intro conjI)
    apply (rule run)
    apply (rule len)
    apply (rule srt)
    apply (rule hit)
    apply (rule sub)
    done
qed

theorem searchInConversation_results_witness:
  "literalDotEngine (js ''bon'') = Some (matchAnywhere (js ''bon''))
   \<and> plainQuery (js ''bon'') \<and> searchesSubstring literalDotEngine (js ''bon'')
   \<and> (\<exists>ms. searchInConversation literalDotEngine db0 10 (js ''bon'') = Some ms
           \<and> length ms \<le> 10
           \<and> sorted_wrt (\<lambda>a b. m_createdAt b \<le> m_createdAt a) ms
           \<and> (\<forall>m \<in> set ms. m \<in> set (messages db0) \<and> conversationId m = 10
                               \<and> matchAnywhere (js ''bon'') (content m))
           \<and> (\<forall>m \<in> set ms. sublist (lower (js ''bon'')) (lower (content m))))"
proof -
  have e: "literalDotEngine (js ''bon'') = Some (matchAnywhere (js ''bon''))"
    by (simp add: literalDotEngine_def regexMetachar_def js_def dot_def)
  have p: "plainQuery (js ''bon'')" by code_simp
  have l: "searchesSubstring literalDotEngine (js ''bon'')" using p by (rule literalDotEngine_plain)
  from searchInConversation_results
         [of literalDotEngine "js ''bon''" "matchAnywhere (js ''bon'')" db0 10, OF e] p l
  have "\<exists>ms. searchInConversation literalDotEngine db0 10 (js ''bon'') = Some ms
           \<and> length ms \<le> 10
           \<and> sorted_wrt (\<lambda>a b. m_createdAt b \<le> m_createdAt a) ms
           \<and> (\<forall>m \<in> set ms. m \<in> set (messages db0) \<and> conversationId m = 10
                               \<and> matchAnywhere (js ''bon'') (content m))
           \<and> (\<forall>m \<in> set ms. sublist (lower (js ''bon'')) (lower (content m)))"
    by blast
  with e p l show ?thesis by blast
qed

section \<open>When the summary of a conversation is rewritten\<close>

text \<open>
  Claim C9 says that the update of the summary from a message runs once for each message
  appended, and never for \<open>markAsRead\<close> or \<open>editContent\<close> of a message. The middleware is
  attached to \<open>save\<close>, and both methods end in \<open>this.save()\<close>: in the example database,
  whose conversation has the summary of the newer message of Alice, marking the older
  message of Bob as read appends nothing and yet rewrites the summary to that older
  message, its older date included; editing it does the same with the new text.
\<close>

theorem postSave_runs_on_every_save:
  "map lastMessage (conversations db0)
     = [\<lparr>lm_content = js ''Bonjour Bob'', lm_senderId = Some 1, lm_timestamp = 55\<rparr>]
   \<and> map_option (\<lambda>s'. map lastMessage (conversations s')) (message_markAsRead db0 msg1)
     = Some [\<lparr>lm_content = js ''Salut'', lm_senderId = Some 2, lm_timestamp = 50\<rparr>]
   \<and> map_option (\<lambda>s'. length (messages s')) (message_markAsRead db0 msg1)
     = Some (length (messages db0))
   \<and> map_option (\<lambda>s'. map lastMessage (conversations s')) (editContent db0 msg1 (js ''Coucou''))
     = Some [\<lparr>lm_content = js ''Coucou'', lm_senderId = Some 2, lm_timestamp = 50\<rparr>]"
  by code_simp

section \<open>The unread total of a user with nothing unread\<close>

text \<open>
  Claim C10. When no message of a conversation that the user takes part in is both unread
  and sent by somebody else (so also when the user takes part in no conversation), the
  pipeline of \<open>getUnreadCount\<close> returns no document and \<open>GET /unread-count\<close> succeeds
  with the number 0, the database unchanged.
\<close>

theorem unreadTotal_zero:
  assumes none: "\<forall>m \<in> set (messages s). \<forall>c \<in> set (conversations s).
                   c_id c = conversationId m \<and> hasParticipant c (u_id u) \<and> senderId m \<noteq> u_id u
                     \<longrightarrow> isRead m"
  shows "getUnreadCount s (u_id u) = [] \<and> unreadTotal s u = (Inr 0, s)"
proof -
  have "filter (matchUnread s (u_id u)) (messages s) = []"
    using none by (auto simp: filter_empty_conv matchUnread_iff)
  then have "getUnreadCount s (u_id u) = []"
    by (simp add: getUnreadCount_def groupTotal_Nil)
  then show ?thesis by (simp add: unreadTotal_def)
qed

theorem unreadTotal_zero_witness:
  "list_all (\<lambda>c. \<not> hasParticipant c (u_id carol)) (conversations db0)
   \<and> getUnreadCount db0 (u_id carol) = [] \<and> unreadTotal db0 carol = (Inr 0, db0)"
proof -
  have p: "list_all (\<lambda>c. \<not> hasParticipant c (u_id carol)) (conversations db0)" by code_simp
  then have h: "\<forall>m \<in> set (messages db0). \<forall>c \<in> set (conversations db0).
       c_id c = conversationId m \<and> hasParticipant c (u_id carol) \<and> senderId m \<noteq> u_id carol
         \<longrightarrow> isRead m"
    by (simp add: list_all_iff)
  show ?thesis
    apply (intro conjI)
    apply (rule p)
    apply (rule unreadTotal_zero [OF h, THEN conjunct1])
    apply (rule unreadTotal_zero [OF h, THEN conjunct2])
    done
qed

end
